theory Spec2Isabelle
  imports Main "HOL-Library.AList"
begin

section \<open>JavaScript values, objects and the heap\<close>

text \<open>
  The utilities of enyo (\<^verbatim>\<open>enyo.getPath\<close>, \<^verbatim>\<open>enyo.setPath\<close>, \<^verbatim>\<open>enyo.mixin\<close>,
  \<^verbatim>\<open>enyo.bind\<close>, \<^verbatim>\<open>enyo.bindSafely\<close>) work on dynamically typed values and on
  objects that are shared by reference. A value is a primitive or the address of an
  object on the heap; functions are objects that can be called. Numbers are the
  integers together with \<^verbatim>\<open>NaN\<close>, the one value that is not strictly equal to itself.
\<close>

type_synonym addr = nat

datatype val =
    VUndef
  | VNull
  | VBool bool
  | VNum int
  | VNaN
  | VStr string
  | VObj addr

text \<open>
  An object has its own data properties in insertion order, an optional prototype, a flag
  telling whether it can be called, the names of its own properties that are not
  writable, and a flag telling whether properties can be added to it (it is false after
  \<^verbatim>\<open>Object.preventExtensions\<close>, \<^verbatim>\<open>Object.seal\<close> and \<^verbatim>\<open>Object.freeze\<close>; a frozen
  object has, in addition, all its properties not writable). The objects of the model are
  ordinary objects and functions, and every property is an enumerable data property:
  arrays and other exotic objects, and accessor properties, are not part of it. The one
  exception is the accessor \<^verbatim>\<open>__proto__\<close> of \<^verbatim>\<open>Object.prototype\<close>, which is treated
  where properties are read and written.
\<close>

record obj =
  props :: "(string \<times> val) list"
  proto :: "addr option"
  callable :: bool
  readonly :: "string list"
  extensible :: bool

text \<open>A call of a function that is not part of the modelled code: callee, receiver, arguments.\<close>

datatype event = Call addr val "val list"

record state =
  heap :: "obj list"
  calls :: "event list"

text \<open>
  A run ends with a \<^verbatim>\<open>TypeError\<close> of the language, with an \<^verbatim>\<open>Error\<close> that the code
  throws (and its message), or it leaves the heaps that this model represents
  (\<open>Unsupported\<close>, which is no exception of the program; see \<open>setProto\<close>).
\<close>

datatype error = TypeError | Thrown string | Unsupported

text \<open>
  The surroundings of the code: the \<^verbatim>\<open>enyo\<close> namespace object, the global object
  (\<^verbatim>\<open>enyo.global\<close>), the function objects \<^verbatim>\<open>enyo.getPath\<close> and \<^verbatim>\<open>enyo.setPath\<close>
  themselves (the code compares properties with them by identity),
  \<^verbatim>\<open>Object.prototype\<close>, the native \<^verbatim>\<open>Function.prototype.bind\<close>, the properties that
  primitive values inherit from their built-in prototypes, the conversion of a value to a
  string, and the behaviour of every function that is not part of the modelled code
  (getters, \<^verbatim>\<open>get\<close>/\<^verbatim>\<open>set\<close> overrides, \<^verbatim>\<open>notify\<close> hooks, comparators).
\<close>

record env =
  enyo :: addr
  global :: addr
  getPathFn :: addr
  setPathFn :: addr
  objectProto :: addr
  nativeBind :: addr
  primProp :: "val \<Rightarrow> string \<Rightarrow> val"
  toStr :: "val \<Rightarrow> string"
  call :: "addr \<Rightarrow> val \<Rightarrow> val list \<Rightarrow> state \<Rightarrow> error + (val \<times> state)"

definition bindE :: "error + 'a \<Rightarrow> ('a \<Rightarrow> error + 'b) \<Rightarrow> error + 'b" where
  "bindE m f = (case m of Inl e \<Rightarrow> Inl e | Inr x \<Rightarrow> f x)"

text \<open>Truthiness, as \<^verbatim>\<open>!x\<close>, \<^verbatim>\<open>&&\<close>, \<^verbatim>\<open>||\<close> and loop conditions test it.\<close>

fun truthy :: "val \<Rightarrow> bool" where
  "truthy VUndef = False"
| "truthy VNull = False"
| "truthy (VBool b) = b"
| "truthy (VNum n) = (n \<noteq> 0)"
| "truthy VNaN = False"
| "truthy (VStr s) = (s \<noteq> [])"
| "truthy (VObj a) = True"

text \<open>Strict inequality \<^verbatim>\<open>!==\<close>: identity on objects, equality on primitives, and
  \<^verbatim>\<open>NaN !== NaN\<close>.\<close>

definition strictNeq :: "val \<Rightarrow> val \<Rightarrow> bool" where
  "strictNeq v w = (v = VNaN \<or> v \<noteq> w)"

definition isCallable :: "state \<Rightarrow> addr \<Rightarrow> bool" where
  "isCallable st a = (a < length (heap st) \<and> callable (heap st ! a))"

definition typeof :: "state \<Rightarrow> val \<Rightarrow> string" where
  "typeof st v =
     (case v of
        VUndef \<Rightarrow> ''undefined''
      | VNull \<Rightarrow> ''object''
      | VBool b \<Rightarrow> ''boolean''
      | VNum n \<Rightarrow> ''number''
      | VNaN \<Rightarrow> ''number''
      | VStr s \<Rightarrow> ''string''
      | VObj a \<Rightarrow> (if isCallable st a then ''function'' else ''object''))"

text \<open>
  Property lookup on an object walks the prototype chain. A prototype is an object that
  existed when the inheriting object was created, so its address is smaller; the lookup
  stops at a link that does not point to an older object, and at an address that is not
  on the heap. This finds the data properties; \<^verbatim>\<open>__proto__\<close> follows below.
\<close>

function lookup :: "obj list \<Rightarrow> addr \<Rightarrow> string \<Rightarrow> val" where
  "lookup h a k =
     (if a < length h then
        (case map_of (props (h ! a)) k of
           Some v \<Rightarrow> v
         | None \<Rightarrow>
             (case proto (h ! a) of
                Some p \<Rightarrow> (if p < a then lookup h p k else VUndef)
              | None \<Rightarrow> VUndef))
      else VUndef)"
  by pat_completeness auto
termination
  by (relation "measure (\<lambda>(h, a, k). a)") auto

declare lookup.simps [simp del]

text \<open>The prototype chain of an object, the object first, and the first object on it
  that has a given property as its own.\<close>

function chain :: "obj list \<Rightarrow> addr \<Rightarrow> addr list" where
  "chain h a =
     (if a < length h then
        a # (case proto (h ! a) of
               Some p \<Rightarrow> (if p < a then chain h p else [])
             | None \<Rightarrow> [])
      else [])"
  by pat_completeness auto
termination
  by (relation "measure (\<lambda>(h, a). a)") auto

declare chain.simps [simp del]

definition owner :: "obj list \<Rightarrow> addr \<Rightarrow> string \<Rightarrow> addr option" where
  "owner h a k = List.find (\<lambda>b. map_of (props (h ! b)) k \<noteq> None) (chain h a)"

text \<open>
  \<^verbatim>\<open>Object.prototype\<close> has the accessor property \<^verbatim>\<open>__proto__\<close>. An object that inherits
  from \<^verbatim>\<open>Object.prototype\<close> answers this name with its prototype (or \<^verbatim>\<open>null\<close>), unless
  a data property of that name on its chain comes first (\<^verbatim>\<open>Object.prototype\<close> is where
  a chain ends, so a data property of that name on the chain does come first).
\<close>

definition protoKey :: "env \<Rightarrow> obj list \<Rightarrow> addr \<Rightarrow> string \<Rightarrow> bool" where
  "protoKey E h a k =
     (k = ''__proto__'' \<and> owner h a k = None \<and> objectProto E \<in> set (chain h a))"

definition protoVal :: "obj list \<Rightarrow> addr \<Rightarrow> val" where
  "protoVal h a = (case proto (h ! a) of Some p \<Rightarrow> VObj p | None \<Rightarrow> VNull)"

text \<open>\<^verbatim>\<open>o[k]\<close> on an object.\<close>

definition getObj :: "env \<Rightarrow> obj list \<Rightarrow> addr \<Rightarrow> string \<Rightarrow> val" where
  "getObj E h a k = (if protoKey E h a k then protoVal h a else lookup h a k)"

text \<open>\<^verbatim>\<open>v[k]\<close> for any value: a \<^verbatim>\<open>TypeError\<close> on \<^verbatim>\<open>undefined\<close> and \<^verbatim>\<open>null\<close>, the
  built-in prototype's answer on the other primitives.\<close>

definition getV :: "env \<Rightarrow> state \<Rightarrow> val \<Rightarrow> string \<Rightarrow> error + val" where
  "getV E st v k =
     (case v of
        VUndef \<Rightarrow> Inl TypeError
      | VNull \<Rightarrow> Inl TypeError
      | VObj a \<Rightarrow> Inr (getObj E (heap st) a k)
      | _ \<Rightarrow> Inr (primProp E v k))"

text \<open>
  An assignment \<^verbatim>\<open>o[k] = v\<close> takes effect as a write of an own data property when the
  first owner of \<^verbatim>\<open>k\<close> on the chain of \<^verbatim>\<open>o\<close> holds it writable and is \<^verbatim>\<open>o\<close> itself or
  \<^verbatim>\<open>o\<close> is extensible, and, when nothing on the chain has \<^verbatim>\<open>k\<close>, when \<^verbatim>\<open>o\<close> is
  extensible and \<^verbatim>\<open>k\<close> is not the accessor \<^verbatim>\<open>__proto__\<close>.
\<close>

definition writable :: "env \<Rightarrow> obj list \<Rightarrow> addr \<Rightarrow> string \<Rightarrow> bool" where
  "writable E h a k =
     (a < length h \<and>
      (case owner h a k of
         Some b \<Rightarrow> k \<notin> set (readonly (h ! b)) \<and> (b = a \<or> extensible (h ! a))
       | None \<Rightarrow> \<not> protoKey E h a k \<and> extensible (h ! a)))"

text \<open>An object passes the write protection of \<^verbatim>\<open>k\<close> on to its heirs when the first
  owner of \<^verbatim>\<open>k\<close> on its chain holds it not writable.\<close>

definition locked :: "obj list \<Rightarrow> addr \<Rightarrow> string \<Rightarrow> bool" where
  "locked h a k = (case owner h a k of Some b \<Rightarrow> k \<in> set (readonly (h ! b)) | None \<Rightarrow> False)"

text \<open>The write itself: the own property is created or overwritten, and it is writable.\<close>

definition setOwn :: "state \<Rightarrow> addr \<Rightarrow> string \<Rightarrow> val \<Rightarrow> state" where
  "setOwn st a k v =
     st\<lparr>heap := (heap st)[a := (heap st ! a)\<lparr>props := AList.update k v (props (heap st ! a)),
                                               readonly := removeAll k (readonly (heap st ! a))\<rparr>]\<rparr>"

text \<open>
  The setter of \<^verbatim>\<open>__proto__\<close> on an object: a value that is neither an object nor
  \<^verbatim>\<open>null\<close> is ignored, and so is the prototype the object already has. Otherwise it is a
  \<^verbatim>\<open>TypeError\<close> when the object is not extensible, when it is \<^verbatim>\<open>Object.prototype\<close>, and
  when the new prototype inherits from the object; else the object gets the new
  prototype. Prototypes are older than their objects in this model (see \<open>lookup\<close>), so a
  prototype that is younger than the object, and does not inherit from it, is where the
  model ends.
\<close>

definition setProto :: "env \<Rightarrow> state \<Rightarrow> addr \<Rightarrow> val \<Rightarrow> error + state" where
  "setProto E st a v =
     (case (case v of VObj p \<Rightarrow> Some (Some p) | VNull \<Rightarrow> Some None | _ \<Rightarrow> None) of
        None \<Rightarrow> Inr st
      | Some np \<Rightarrow>
          if proto (heap st ! a) = np then Inr st
          else if \<not> extensible (heap st ! a) \<or> a = objectProto E then Inl TypeError
          else
            (case np of
               None \<Rightarrow> Inr (st\<lparr>heap := (heap st)[a := (heap st ! a)\<lparr>proto := None\<rparr>]\<rparr>)
             | Some p \<Rightarrow>
                 if p < a then Inr (st\<lparr>heap := (heap st)[a := (heap st ! a)\<lparr>proto := Some p\<rparr>]\<rparr>)
                 else if a \<in> set (chain (heap st) p) then Inl TypeError
                 else Inl Unsupported))"

text \<open>
  \<^verbatim>\<open>o[k] = v\<close> on an object. The code is not in strict mode: an assignment that cannot
  take effect (the property or an inherited one of that name is not writable, or the
  object is not extensible) is silently dropped.
\<close>

definition putObj :: "env \<Rightarrow> state \<Rightarrow> addr \<Rightarrow> string \<Rightarrow> val \<Rightarrow> error + state" where
  "putObj E st a k v =
     (if writable E (heap st) a k then Inr (setOwn st a k v)
      else if protoKey E (heap st) a k then setProto E st a v
      else Inr st)"

text \<open>\<^verbatim>\<open>x[k] = v\<close> for any value: the write to a primitive (other than \<^verbatim>\<open>undefined\<close> and
  \<^verbatim>\<open>null\<close>) is silently dropped as well.\<close>

definition putV :: "env \<Rightarrow> state \<Rightarrow> val \<Rightarrow> string \<Rightarrow> val \<Rightarrow> error + state" where
  "putV E st x k v =
     (case x of
        VUndef \<Rightarrow> Inl TypeError
      | VNull \<Rightarrow> Inl TypeError
      | VObj a \<Rightarrow> putObj E st a k v
      | _ \<Rightarrow> Inr st)"

definition alloc :: "state \<Rightarrow> obj \<Rightarrow> addr \<times> state" where
  "alloc st ob = (length (heap st), st\<lparr>heap := heap st @ [ob]\<rparr>)"

text \<open>An object literal \<^verbatim>\<open>{k1: v1, ...}\<close>.\<close>

definition newObject :: "env \<Rightarrow> state \<Rightarrow> (string \<times> val) list \<Rightarrow> addr \<times> state" where
  "newObject E st ps =
     alloc st \<lparr>props = ps, proto = Some (objectProto E), callable = False, readonly = [], extensible = True\<rparr>"

text \<open>A value used as a property name is converted to a string.\<close>

definition toKey :: "env \<Rightarrow> val \<Rightarrow> string" where
  "toKey E v = (case v of VStr s \<Rightarrow> s | _ \<Rightarrow> toStr E v)"

text \<open>A call \<^verbatim>\<open>f.call(this, args...)\<close> of a value: a \<^verbatim>\<open>TypeError\<close> unless the value is a
  function; the call is recorded and its effect is the environment's.\<close>

definition invoke :: "env \<Rightarrow> state \<Rightarrow> val \<Rightarrow> val \<Rightarrow> val list \<Rightarrow> error + (val \<times> state)" where
  "invoke E st f this args =
     (case f of
        VObj a \<Rightarrow>
          (if isCallable st a
           then call E a this args (st\<lparr>calls := calls st @ [Call a this args]\<rparr>)
           else Inl TypeError)
      | _ \<Rightarrow> Inl TypeError)"

section \<open>Paths\<close>

text \<open>\<^verbatim>\<open>path.replace(/^\.+/, '')\<close>, run when \<^verbatim>\<open>path[0] == '.'\<close>.\<close>

definition stripDots :: "string \<Rightarrow> string" where
  "stripDots s = (if s \<noteq> [] \<and> hd s = CHR ''.'' then dropWhile (\<lambda>c. c = CHR ''.'') s else s)"

text \<open>\<^verbatim>\<open>path.split('.')\<close>: empty segments are kept.\<close>

fun splitDot :: "string \<Rightarrow> string list" where
  "splitDot [] = [[]]"
| "splitDot (c # cs) =
     (if c = CHR ''.'' then [] # splitDot cs
      else (case splitDot cs of p # ps \<Rightarrow> (c # p) # ps | [] \<Rightarrow> [[c]]))"

text \<open>\<^verbatim>\<open>parts.join('.')\<close>.\<close>

fun joinDot :: "string list \<Rightarrow> string" where
  "joinDot [] = []"
| "joinDot [p] = p"
| "joinDot (p # q # ps) = p @ ''.'' @ joinDot (q # ps)"

text \<open>\<^verbatim>\<open>this === enyo ? enyo.global : this\<close>.\<close>

definition rootOf :: "env \<Rightarrow> addr \<Rightarrow> addr" where
  "rootOf E this = (if this = enyo E then global E else this)"

section \<open>enyo.getPath\<close>

text \<open>
  One round of the loop body of \<^verbatim>\<open>enyo.getPath\<close>:
  \<^verbatim>\<open>if (next._getters && ((getter = next._getters[part])) && !getter.generated) next = next[getter]();
  else if (next.get && next !== this && next.get !== getPath) next = next.get(part);
  else next = next[part];\<close>
\<close>

definition getStep :: "env \<Rightarrow> addr \<Rightarrow> state \<Rightarrow> val \<Rightarrow> string \<Rightarrow> error + (val \<times> state)" where
  "getStep E this st nxt part =
     bindE (getV E st nxt ''_getters'') (\<lambda>gs.
     bindE (if truthy gs then getV E st gs part else Inr gs) (\<lambda>getter.
     bindE (if truthy gs \<and> truthy getter then getV E st getter ''generated'' else Inr VUndef) (\<lambda>gen.
       if truthy gs \<and> truthy getter \<and> \<not> truthy gen then
         bindE (getV E st nxt (toKey E getter)) (\<lambda>m. invoke E st m nxt [])
       else
         bindE (getV E st nxt ''get'') (\<lambda>g.
           if truthy g \<and> nxt \<noteq> VObj this \<and> g \<noteq> VObj (getPathFn E)
           then invoke E st g nxt [VStr part]
           else bindE (getV E st nxt part) (\<lambda>v. Inr (v, st))))))"

text \<open>
  The loop \<^verbatim>\<open>do { ... } while (next && (part = parts.shift()))\<close>: it ends when the value
  just read is falsy, when no segment is left, and when the next segment is the empty
  string (which is falsy).
\<close>

fun getWalk :: "env \<Rightarrow> addr \<Rightarrow> state \<Rightarrow> val \<Rightarrow> string \<Rightarrow> string list \<Rightarrow> error + (val \<times> state)" where
  "getWalk E this st nxt part [] = getStep E this st nxt part"
| "getWalk E this st nxt part (p # ps) =
     (case getStep E this st nxt part of
        Inl e \<Rightarrow> Inl e
      | Inr (v, st') \<Rightarrow>
          (if truthy v \<and> p \<noteq> [] then getWalk E this st' v p ps else Inr (v, st')))"

text \<open>
  \<^verbatim>\<open>enyo.getPath.call(this, path)\<close>. The code is not in strict mode, so the receiver is
  always an object. A path that is \<^verbatim>\<open>null\<close> or \<^verbatim>\<open>undefined\<close> passes the first test and
  fails at \<^verbatim>\<open>path[0]\<close>; a truthy number or boolean fails at \<^verbatim>\<open>path.split\<close>. Paths that
  are objects are outside the documented parameter type and are given the same result.
\<close>

definition getPath :: "env \<Rightarrow> state \<Rightarrow> addr \<Rightarrow> val \<Rightarrow> error + (val \<times> state)" where
  "getPath E st this path =
     (if \<not> truthy path \<and> path \<noteq> VNull \<and> path \<noteq> VUndef then Inr (path, st)
      else
        (case path of
           VStr s \<Rightarrow>
             (let s' = stripDots s in
              if s' = [] then Inr (VUndef, st)
              else
                (case splitDot s' of
                   part # parts \<Rightarrow> getWalk E this st (VObj (rootOf E this)) part parts
                 | [] \<Rightarrow> Inr (VUndef, st)))
         | _ \<Rightarrow> Inl TypeError))"

section \<open>enyo.mixin\<close>

text \<open>
  The keys \<^verbatim>\<open>for (var key in src)\<close> visits: the object's own keys, then those of its
  prototype chain that are not shadowed.
\<close>

function forInKeys :: "obj list \<Rightarrow> addr \<Rightarrow> string list" where
  "forInKeys h a =
     (if a < length h then
        (let own = map fst (props (h ! a)) in
         own @
         (case proto (h ! a) of
            Some p \<Rightarrow> (if p < a then filter (\<lambda>k. k \<notin> set own) (forInKeys h p) else [])
          | None \<Rightarrow> []))
      else [])"
  by pat_completeness auto
termination
  by (relation "measure (\<lambda>(h, a). a)") auto

declare forInKeys.simps [simp del]

text \<open>
  \<^verbatim>\<open>empty[key]\<close> for the module's \<^verbatim>\<open>var empty = {}\<close>, an object without own properties
  that inherits from \<^verbatim>\<open>Object.prototype\<close>: what \<^verbatim>\<open>Object.prototype\<close> gives, and
  \<^verbatim>\<open>Object.prototype\<close> itself under \<^verbatim>\<open>__proto__\<close>.
\<close>

definition emptyGet :: "env \<Rightarrow> obj list \<Rightarrow> string \<Rightarrow> val" where
  "emptyGet E h k =
     (if protoKey E h (objectProto E) k then VObj (objectProto E) else lookup h (objectProto E) k)"

text \<open>
  The body of the \<^verbatim>\<open>for ... in\<close> loop of \<^verbatim>\<open>enyo.mixin\<close> under its default options
  (\<^verbatim>\<open>exists\<close> and \<^verbatim>\<open>ignore\<close> false, no \<^verbatim>\<open>filter\<close>):
  \<^verbatim>\<open>val = src[key]; if (empty[key] !== val) ret[key] = val;\<close>
\<close>

definition mixinKey :: "env \<Rightarrow> addr \<Rightarrow> addr \<Rightarrow> state \<Rightarrow> string \<Rightarrow> error + state" where
  "mixinKey E ret src st key =
     (let v = getObj E (heap st) src key in
      if strictNeq (emptyGet E (heap st) key) v then putObj E st ret key v else Inr st)"

fun mixinKeys :: "env \<Rightarrow> addr \<Rightarrow> addr \<Rightarrow> state \<Rightarrow> string list \<Rightarrow> error + state" where
  "mixinKeys E ret src st [] = Inr st"
| "mixinKeys E ret src st (k # ks) = bindE (mixinKey E ret src st k) (\<lambda>st'. mixinKeys E ret src st' ks)"

definition mixinObj :: "env \<Rightarrow> state \<Rightarrow> addr \<Rightarrow> addr \<Rightarrow> error + state" where
  "mixinObj E st ret src = mixinKeys E ret src st (forInKeys (heap st) src)"

text \<open>
  \<^verbatim>\<open>for (var i=0, it; (it=src[i]); ++i) mixin(ret, it, opts)\<close>: the loop over an array of
  sources ends at the first falsy element. The sources that reach it here are objects and
  \<^verbatim>\<open>null\<close>; numbers and booleans have no enumerable keys.
\<close>

fun mixinAll :: "env \<Rightarrow> state \<Rightarrow> addr \<Rightarrow> val list \<Rightarrow> error + state" where
  "mixinAll E st ret [] = Inr st"
| "mixinAll E st ret (v # vs) =
     (if truthy v
      then bindE (case v of VObj a \<Rightarrow> mixinObj E st ret a | _ \<Rightarrow> Inr st)
             (\<lambda>st'. mixinAll E st' ret vs)
      else Inr st)"

section \<open>enyo.setPath\<close>

text \<open>\<^verbatim>\<open>options = {create: true, silent: false, force: false}\<close>.\<close>

definition defaultOptions :: "(string \<times> val) list" where
  "defaultOptions = [(''create'', VBool True), (''silent'', VBool False), (''force'', VBool False)]"

text \<open>
  How the loop of \<^verbatim>\<open>enyo.setPath\<close> is left: by handing the rest of the path to a Node's
  own \<^verbatim>\<open>set\<close> (and returning), or with the current \<^verbatim>\<open>next\<close>, \<^verbatim>\<open>part\<close> and \<^verbatim>\<open>was\<close>.
\<close>

datatype walkres = Delegated | Reached val string val

text \<open>
  The loop \<^verbatim>\<open>do { ... } while (next && parts.length && (part = parts.shift()))\<close>. With no
  segment left, \<^verbatim>\<open>was\<close> is read (through \<^verbatim>\<open>next.get\<close> when that is not
  \<^verbatim>\<open>enyo.getPath\<close>). Otherwise a Node other than the root that has its own \<^verbatim>\<open>set\<close> takes
  over; else the segment is read and, when falsy, replaced by \<^verbatim>\<open>create && (next[part] = {})\<close>.
  An empty next segment ends the loop after it was shifted into \<^verbatim>\<open>part\<close>, and \<^verbatim>\<open>was\<close>
  is then still \<^verbatim>\<open>undefined\<close>.
\<close>

fun setWalk :: "env \<Rightarrow> val \<Rightarrow> val \<Rightarrow> val \<Rightarrow> val \<Rightarrow> state \<Rightarrow> val \<Rightarrow> string \<Rightarrow> string list
    \<Rightarrow> error + (walkres \<times> state)" where
  "setWalk E base newv opts create st nxt part [] =
     bindE (getV E st nxt ''get'') (\<lambda>g.
     bindE (if truthy g \<and> g \<noteq> VObj (getPathFn E) then invoke E st g nxt [VStr part]
            else bindE (getV E st nxt part) (\<lambda>v. Inr (v, st))) (\<lambda>(was, st1).
       Inr (Reached nxt part was, st1)))"
| "setWalk E base newv opts create st nxt part (p # ps) =
     bindE (if nxt \<noteq> base then getV E st nxt ''set'' else Inr VUndef) (\<lambda>setter.
       if nxt \<noteq> base \<and> truthy setter \<and> setter \<noteq> VObj (setPathFn E) then
         bindE (invoke E st setter nxt [VStr (joinDot (part # p # ps)), newv, opts])
           (\<lambda>(r, st1). Inr (Delegated, st1))
       else
         bindE (if nxt \<noteq> base then getV E st nxt ''get'' else Inr VUndef) (\<lambda>g.
         bindE (if nxt \<noteq> base \<and> truthy g \<and> g \<noteq> VObj (getPathFn E)
                then invoke E st g nxt [VStr part]
                else bindE (getV E st nxt part) (\<lambda>v. Inr (v, st))) (\<lambda>(v, st1).
         bindE (if truthy v then Inr (v, st1)
                else if truthy create then
                  (let (a, st2) = newObject E st1 []
                   in bindE (putV E st2 nxt part (VObj a)) (\<lambda>st3. Inr (VObj a, st3)))
                else Inr (create, st1)) (\<lambda>(nxt', st4).
           if truthy nxt' then
             (if p \<noteq> [] then setWalk E base newv opts create st4 nxt' p ps
              else Inr (Reached nxt' p VUndef, st4))
           else Inr (Reached nxt' part VUndef, st4)))))"

text \<open>
  After the loop: \<^verbatim>\<open>if (!next) return base;\<close>, the hand-over to the target's own
  \<^verbatim>\<open>set\<close>, else the write \<^verbatim>\<open>next[part] = is\<close> and the notification
  \<^verbatim>\<open>if (next.notify && !silent && (force || was !== is || (comparator && comparator(was, is))))
  next.notify(part, was, is, opts)\<close>.
\<close>

definition setFinish :: "env \<Rightarrow> val \<Rightarrow> val \<Rightarrow> val \<Rightarrow> val \<Rightarrow> val \<Rightarrow> val \<Rightarrow> walkres \<Rightarrow> state
    \<Rightarrow> error + (val \<times> state)" where
  "setFinish E base newv opts force silent comparator res st =
     (case res of
        Delegated \<Rightarrow> Inr (base, st)
      | Reached nxt part was \<Rightarrow>
          if \<not> truthy nxt then Inr (base, st)
          else
            bindE (if nxt \<noteq> base then getV E st nxt ''set'' else Inr VUndef) (\<lambda>setter.
              if nxt \<noteq> base \<and> truthy setter \<and> setter \<noteq> VObj (setPathFn E) then
                bindE (invoke E st setter nxt [VStr part, newv, opts]) (\<lambda>(r, st1). Inr (base, st1))
              else
                bindE (putV E st nxt part newv) (\<lambda>st1.
                bindE (getV E st1 nxt ''notify'') (\<lambda>n.
                  if truthy n \<and> \<not> truthy silent then
                    bindE (if truthy force \<or> strictNeq was newv then Inr (True, st1)
                           else if truthy comparator then
                             bindE (invoke E st1 comparator VUndef [was, newv])
                               (\<lambda>(r, st2). Inr (truthy r, st2))
                           else Inr (False, st1)) (\<lambda>(fire, st3).
                      if fire then
                        bindE (getV E st3 nxt ''notify'') (\<lambda>n'.
                        bindE (invoke E st3 n' nxt [VStr part, was, newv, opts])
                          (\<lambda>(r, st4). Inr (base, st4)))
                      else Inr (base, st3))
                  else Inr (base, st1)))))"

text \<open>
  The options of a call of \<^verbatim>\<open>enyo.setPath\<close>: the hash \<^verbatim>\<open>opts\<close> and the variables
  \<^verbatim>\<open>force\<close>, \<^verbatim>\<open>silent\<close>, \<^verbatim>\<open>create\<close> and \<^verbatim>\<open>comparator\<close>. The options literal is a
  new object; when \<^verbatim>\<open>typeof opts == 'object'\<close> (an object or \<^verbatim>\<open>null\<close>) the hash is
  \<^verbatim>\<open>enyo.mixin({}, [options, opts])\<close>, otherwise the third argument is the force flag
  and the hash is the literal. Then \<^verbatim>\<open>if (opts.force) force = true\<close>, and the three
  other variables are read from the hash (under names that are data properties).
\<close>

definition setOptions :: "env \<Rightarrow> state \<Rightarrow> val \<Rightarrow> error + ((val \<times> val \<times> val \<times> val \<times> val) \<times> state)" where
  "setOptions E st opts0 =
     (let (oa, st1) = newObject E st defaultOptions in
      bindE (if typeof st1 opts0 = ''object'' then
               (let (ret, sta) = newObject E st1 []
                in bindE (mixinAll E sta ret [VObj oa, opts0]) (\<lambda>stb. Inr (ret, VUndef, stb)))
             else Inr (oa, opts0, st1)) (\<lambda>(pa, force0, st2).
        (let force = (if truthy (lookup (heap st2) pa ''force'') then VBool True else force0);
             silent = lookup (heap st2) pa ''silent'';
             create = lookup (heap st2) pa ''create'';
             comparator = lookup (heap st2) pa ''comparator''
         in Inr ((VObj pa, force, silent, create, comparator), st2))))"

text \<open>
  \<^verbatim>\<open>enyo.setPath.call(this, path, is, opts)\<close>. A falsy path returns the receiver; a path
  that is empty once its leading dots are stripped returns the root. A truthy path that
  is not a string fails as in \<^verbatim>\<open>enyo.getPath\<close>.
\<close>

definition setPath :: "env \<Rightarrow> state \<Rightarrow> addr \<Rightarrow> val \<Rightarrow> val \<Rightarrow> val \<Rightarrow> error + (val \<times> state)" where
  "setPath E st this path newv opts0 =
     (if \<not> truthy path then Inr (VObj this, st)
      else
        (let base = VObj (rootOf E this) in
         bindE (setOptions E st opts0) (\<lambda>((opts, force, silent, create, comparator), st2).
           (case path of
              VStr s \<Rightarrow>
                (let s' = stripDots s in
                 if s' = [] then Inr (base, st2)
                 else
                   (case splitDot s' of
                      part # parts \<Rightarrow>
                        bindE (setWalk E base newv opts create st2 base part parts)
                          (\<lambda>(res, st3). setFinish E base newv opts force silent comparator res st3)
                    | [] \<Rightarrow> Inr (base, st2)))
            | _ \<Rightarrow> Inl TypeError))))"

section \<open>Paths through plain Nodes\<close>

text \<open>
  For statements about repeated assignment: a Node overrides \<^verbatim>\<open>get\<close> (\<^verbatim>\<open>set\<close>) when it
  has a truthy \<^verbatim>\<open>get\<close> (\<^verbatim>\<open>set\<close>) that is not \<^verbatim>\<open>enyo.getPath\<close> (\<^verbatim>\<open>enyo.setPath\<close>); these
  are the tests of \<^verbatim>\<open>enyo.setPath\<close> itself. \<open>plainWalk\<close> follows a path from the root
  through Nodes that exist on the heap, are objects and, the root apart, override neither;
  segments after the first are non-empty. It yields the target Node and the last segment.
\<close>

definition customGet :: "env \<Rightarrow> obj list \<Rightarrow> addr \<Rightarrow> bool" where
  "customGet E h a = (truthy (lookup h a ''get'') \<and> lookup h a ''get'' \<noteq> VObj (getPathFn E))"

definition customSet :: "env \<Rightarrow> obj list \<Rightarrow> addr \<Rightarrow> bool" where
  "customSet E h a = (truthy (lookup h a ''set'') \<and> lookup h a ''set'' \<noteq> VObj (setPathFn E))"

fun plainWalk :: "env \<Rightarrow> obj list \<Rightarrow> addr \<Rightarrow> addr \<Rightarrow> string \<Rightarrow> string list \<Rightarrow> (addr \<times> string) option" where
  "plainWalk E h base a part [] = (if a < length h then Some (a, part) else None)"
| "plainWalk E h base a part (p # ps) =
     (if a < length h \<and> p \<noteq> [] \<and> (a = base \<or> (\<not> customSet E h a \<and> \<not> customGet E h a)) then
        (case getObj E h a part of VObj b \<Rightarrow> plainWalk E h base b p ps | _ \<Rightarrow> None)
      else None)"

text \<open>The reads of \<open>plainWalk\<close> on the way to the target: each Node with the segment
  that is read from it.\<close>

fun plainReads :: "env \<Rightarrow> obj list \<Rightarrow> addr \<Rightarrow> string \<Rightarrow> string list \<Rightarrow> (addr \<times> string) list" where
  "plainReads E h a part [] = []"
| "plainReads E h a part (p # ps) =
     (a, part) # (case getObj E h a part of VObj b \<Rightarrow> plainReads E h b p ps | _ \<Rightarrow> [])"

section \<open>enyo.bind and enyo.bindSafely\<close>

text \<open>
  What the two helpers return: the result of the native \<^verbatim>\<open>method.bind(scope, args...)\<close>,
  the closure \<^verbatim>\<open>function () { return method.apply(scope, args.concat(nargs)); }\<close>, the
  closure of \<^verbatim>\<open>enyo.bindSafely\<close> (which first tests \<^verbatim>\<open>scope.destroyed\<close>), or whatever a
  \<^verbatim>\<open>bind\<close> property that is not the native one produced.
\<close>

datatype bound =
    NativeBound addr val "val list"
  | Wrapper addr val "val list"
  | SafeWrapper addr val "val list"
  | Produced val

definition dq :: string where
  "dq = [CHR 0x22]"

text \<open>
  \<^verbatim>\<open>enyo.bind(scope, method, args...)\<close>. A falsy \<^verbatim>\<open>method\<close> makes the first argument the
  method and the scope \<^verbatim>\<open>null\<close>, which then becomes \<^verbatim>\<open>enyo.global\<close>.
\<close>

definition bind :: "env \<Rightarrow> state \<Rightarrow> val \<Rightarrow> val \<Rightarrow> val list \<Rightarrow> error + (bound \<times> state)" where
  "bind E st scope0 method0 args =
     (let (scope1, method1) = (if \<not> truthy method0 then (VNull, scope0) else (scope0, method0));
          scope = (if truthy scope1 then scope1 else VObj (global E))
      in
        bindE (if typeof st method1 = ''string'' then
                 bindE (getV E st scope (toKey E method1)) (\<lambda>m.
                   if truthy m then Inr m
                   else Inl (Thrown (''enyo.bind: scope['' @ dq @ toKey E method1 @ dq @
                          ''] is null (scope='' @ dq @ toKey E scope @ dq @ '')'')))
               else Inr method1) (\<lambda>method.
          if typeof st method = ''function'' then
            (case method of
               VObj f \<Rightarrow>
                 bindE (getV E st method ''bind'') (\<lambda>b.
                   if truthy b then
                     (if b = VObj (nativeBind E) then Inr (NativeBound f scope args, st)
                      else bindE (invoke E st b method (scope # args)) (\<lambda>(r, st1). Inr (Produced r, st1)))
                   else Inr (Wrapper f scope args, st))
             | _ \<Rightarrow> Inl TypeError)
          else Inl (Thrown (''enyo.bind: scope['' @ dq @ toKey E method @ dq @
                 ''] is not a function (scope='' @ dq @ toKey E scope @ dq @ '')''))))"

text \<open>\<^verbatim>\<open>enyo.bindSafely.call(this, scope, method, args...)\<close>; the receiver only shows in the
  message.\<close>

definition bindSafely :: "env \<Rightarrow> state \<Rightarrow> val \<Rightarrow> val \<Rightarrow> val \<Rightarrow> val list \<Rightarrow> error + (bound \<times> state)" where
  "bindSafely E st this scope method0 args =
     bindE (if typeof st method0 = ''string'' then
              bindE (getV E st scope (toKey E method0)) (\<lambda>m.
                if truthy m then Inr m
                else Inl (Thrown (''enyo.bindSafely: scope['' @ dq @ toKey E method0 @ dq @
                       ''] is null (this='' @ dq @ toKey E this @ dq @ '')'')))
            else Inr method0) (\<lambda>method.
       if typeof st method = ''function'' then
         (case method of
            VObj f \<Rightarrow> Inr (SafeWrapper f scope args, st)
          | _ \<Rightarrow> Inl TypeError)
       else Inl (Thrown (''enyo.bindSafely: scope['' @ dq @ toKey E method @ dq @
              ''] is not a function (this='' @ dq @ toKey E this @ dq @ '')'')))"

section \<open>enyo.BindingSupport\<close>

text \<open>
  The mixin keeps three things on its owner: the list \<^verbatim>\<open>bindings\<close>, the flag
  \<^verbatim>\<open>_bindingSupportInitialized\<close> and the optional \<^verbatim>\<open>defaultBindingKind\<close>. An entry of
  the list is a raw descriptor hash or a reference to a Binding instance. The list is
  \<^verbatim>\<open>undefined\<close>, \<^verbatim>\<open>null\<close> or an array, and here it is the owner's own array. A descriptor
  hash is an object literal with distinct keys.
\<close>

type_synonym hash = "(string \<times> val) list"

datatype entry = Hash hash | Bnd nat

datatype 'a slot = Undefined | Null | Arr "'a list"

text \<open>A Binding instance: the properties it was constructed from, its constructor, its
  owner reference and whether it has been destroyed.\<close>

record bindingInst =
  bprops :: hash
  bctor :: addr
  bowner :: val
  bdestroyed :: bool

record support =
  self :: addr
  bindings :: "entry slot"
  bindingSupportInitialized :: bool
  ownDefaultBindingKind :: val
  instances :: "bindingInst list"

text \<open>
  What the mixin's file reads from the rest of the framework when it is loaded:
  \<^verbatim>\<open>enyo.defaultBindingKind\<close>, \<^verbatim>\<open>enyo.constructorForKind\<close>, which values are constructor
  functions, and what the empty object has under a key.
\<close>

record benv =
  defaultBindingKind :: val
  constructorForKind :: "string \<Rightarrow> val"
  isConstructor :: "addr \<Rightarrow> bool"
  emptyProp :: "string \<Rightarrow> val"

text \<open>Reading a key of a hash: an absent key falls through to \<^verbatim>\<open>Object.prototype\<close>.\<close>

definition hget :: "benv \<Rightarrow> hash \<Rightarrow> string \<Rightarrow> val" where
  "hget B h k = (case map_of h k of Some v \<Rightarrow> v | None \<Rightarrow> emptyProp B k)"

text \<open>\<^verbatim>\<open>enyo.mixin\<close> of one hash into another under the default options, and
  \<^verbatim>\<open>mixin(args)\<close> for an array of hashes, which starts from a new object.\<close>

definition mixinHash :: "benv \<Rightarrow> hash \<Rightarrow> hash \<Rightarrow> hash" where
  "mixinHash B ret src =
     foldl (\<lambda>r (k, v). if strictNeq (emptyProp B k) v then AList.update k v r else r) ret src"

definition mixinArgs :: "benv \<Rightarrow> hash list \<Rightarrow> hash" where
  "mixinArgs B args = foldl (mixinHash B) [] args"

text \<open>
  Modelled from the spec: the constructor of \<^verbatim>\<open>enyo.Binding\<close> and of its subkinds is not
  among the sources. A Binding is created from its descriptor, whose keys are passed
  through onto the instance, and its owner reference is the descriptor's; creating it
  does not touch the owner's list.
\<close>

definition newBinding :: "benv \<Rightarrow> addr \<Rightarrow> hash \<Rightarrow> bindingInst" where
  "newBinding B c ps = \<lparr>bprops = ps, bctor = c, bowner = hget B ps ''owner'', bdestroyed = False\<rparr>"

text \<open>
  The first part of \<^verbatim>\<open>binding: function () { ... }\<close>: the arguments are merged into a
  new hash \<^verbatim>\<open>props\<close>, whose \<^verbatim>\<open>owner\<close> defaults to the owner and whose \<^verbatim>\<open>kind\<close> defaults
  to the owner's \<^verbatim>\<open>defaultBindingKind\<close> and then to the global one. The result is the hash
  and the value of \<^verbatim>\<open>Ctor\<close>.
\<close>

definition declared :: "benv \<Rightarrow> support \<Rightarrow> hash list \<Rightarrow> hash \<times> val" where
  "declared B s args =
     (let props0 = mixinArgs B args;
          props1 = AList.update ''owner''
                     (if truthy (hget B props0 ''owner'') then hget B props0 ''owner'' else VObj (self s))
                     props0;
          ctor = (if truthy (hget B props1 ''kind'') then hget B props1 ''kind''
                  else if truthy (ownDefaultBindingKind s) then ownDefaultBindingKind s
                  else defaultBindingKind B)
      in (AList.update ''kind'' ctor props1, ctor))"

text \<open>
  \<^verbatim>\<open>isString(Ctor) && (Ctor = props.kind = constructorForKind(Ctor)); bnd = new Ctor(props);\<close>
  where \<^verbatim>\<open>new\<close> is a \<^verbatim>\<open>TypeError\<close> when \<^verbatim>\<open>Ctor\<close> is not a constructor.
\<close>

definition instantiate :: "benv \<Rightarrow> hash \<times> val \<Rightarrow> error + bindingInst" where
  "instantiate B pc =
     (case pc of (props0, ctor) \<Rightarrow>
        (let ctor' = (case ctor of VStr n \<Rightarrow> constructorForKind B n | _ \<Rightarrow> ctor);
             props' = (case ctor of VStr n \<Rightarrow> AList.update ''kind'' ctor' props0 | _ \<Rightarrow> props0)
         in
           (case ctor' of
              VObj c \<Rightarrow> if isConstructor B c then Inr (newBinding B c props') else Inl TypeError
            | _ \<Rightarrow> Inl TypeError)))"

text \<open>
  \<^verbatim>\<open>binding\<close> as a whole: \<^verbatim>\<open>bindings = this.bindings || (this.bindings = [])\<close>; on an
  initialized owner the new Binding is pushed and returned, otherwise the hash is pushed
  and the owner is returned (here: no entry).
\<close>

definition binding :: "benv \<Rightarrow> support \<Rightarrow> hash list \<Rightarrow> error + (entry option \<times> support)" where
  "binding B s args =
     (let (bs, s1) = (case bindings s of Arr es \<Rightarrow> (es, s) | _ \<Rightarrow> ([], s\<lparr>bindings := Arr []\<rparr>));
          pc = declared B s args
      in
        if bindingSupportInitialized s1 then
          bindE (instantiate B pc) (\<lambda>bnd.
            Inr (Some (Bnd (length (instances s1))),
                 s1\<lparr>instances := instances s1 @ [bnd],
                    bindings := Arr (bs @ [Bnd (length (instances s1))])\<rparr>))
        else Inr (None, s1\<lparr>bindings := Arr (bs @ [Hash (fst pc)])\<rparr>))"

text \<open>The enumerable properties of a list entry, as \<^verbatim>\<open>mixin\<close> sees them when the entry is
  passed to \<^verbatim>\<open>binding\<close>.\<close>

definition entryProps :: "support \<Rightarrow> entry \<Rightarrow> hash" where
  "entryProps s e =
     (case e of
        Hash h \<Rightarrow> h
      | Bnd i \<Rightarrow> (if i < length (instances s) then bprops (instances s ! i) else []))"

text \<open>\<^verbatim>\<open>bindings.forEach(function (def) { this.binding(def); }, this)\<close>.\<close>

fun bindEach :: "benv \<Rightarrow> support \<Rightarrow> entry list \<Rightarrow> error + support" where
  "bindEach B s [] = Inr s"
| "bindEach B s (d # ds) = bindE (binding B s [entryProps s d]) (\<lambda>(r, s'). bindEach B s' ds)"

text \<open>
  \<^verbatim>\<open>constructed\<close>: the flag is set, a list that is there is replaced by an empty one and
  each of its entries is declared again; then the inherited \<^verbatim>\<open>constructed\<close> runs, which
  is a parameter here.
\<close>

definition constructed :: "benv \<Rightarrow> (support \<Rightarrow> error + support) \<Rightarrow> support \<Rightarrow> error + support" where
  "constructed B sup' s =
     (let bs = bindings s;
          s1 = s\<lparr>bindingSupportInitialized := True\<rparr>
      in bindE (case bs of Arr ds \<Rightarrow> bindEach B (s1\<lparr>bindings := Arr []\<rparr>) ds | _ \<Rightarrow> Inr s1) sup')"

text \<open>
  \<^verbatim>\<open>removeBinding\<close>: \<^verbatim>\<open>enyo.remove(binding, this.bindings)\<close> swaps its arguments, takes
  out the first occurrence (\<^verbatim>\<open>indexOf\<close> and \<^verbatim>\<open>splice\<close>) and fails when the list is not an
  array; then \<^verbatim>\<open>if (binding.owner === this) binding.owner = null\<close>.
\<close>

definition removeBinding :: "support \<Rightarrow> nat \<Rightarrow> error + support" where
  "removeBinding s i =
     (case bindings s of
        Arr es \<Rightarrow>
          Inr (s\<lparr>bindings := Arr (remove1 (Bnd i) es),
                 instances := (if i < length (instances s) \<and> bowner (instances s ! i) = VObj (self s)
                               then (instances s)[i := (instances s ! i)\<lparr>bowner := VNull\<rparr>]
                               else instances s)\<rparr>)
      | _ \<Rightarrow> Inl TypeError)"

text \<open>
  Modelled from the spec: \<^verbatim>\<open>enyo.Binding.destroy\<close> is not among the sources. A destroyed
  Binding is removed from its owner (through the owner's \<^verbatim>\<open>removeBinding\<close>) and its
  owner reference is nulled. An owner other than this one is outside the model.
\<close>

definition destroyBinding :: "support \<Rightarrow> nat \<Rightarrow> error + support" where
  "destroyBinding s i =
     (if i < length (instances s) then
        bindE (if bowner (instances s ! i) = VObj (self s) then removeBinding s i else Inr s) (\<lambda>s1.
          Inr (s1\<lparr>instances := (instances s1)[i := (instances s1 ! i)\<lparr>bowner := VNull, bdestroyed := True\<rparr>]\<rparr>))
      else Inl TypeError)"

text \<open>\<^verbatim>\<open>bindings.forEach(function (bnd) { bnd.destroy(); })\<close>: a raw descriptor has no
  \<^verbatim>\<open>destroy\<close> method.\<close>

fun destroyEach :: "support \<Rightarrow> entry list \<Rightarrow> error + support" where
  "destroyEach s [] = Inr s"
| "destroyEach s (Bnd i # es) = bindE (destroyBinding s i) (\<lambda>s'. destroyEach s' es)"
| "destroyEach s (Hash h # es) = Inl TypeError"

text \<open>
  The argument of \<^verbatim>\<open>clearBindings\<close>: none, the owner's list itself (the array
  \<^verbatim>\<open>this.bindings\<close>), or another array.
\<close>

datatype subsetArg = NoSubset | OwnList | Other "entry list"

text \<open>
  \<^verbatim>\<open>forEach\<close> over the owner's list itself: every destroyed Binding takes itself out of
  the list while the loop runs, and \<^verbatim>\<open>forEach\<close> visits the indices below the initial
  length that are still there.
\<close>

fun destroyLive :: "support \<Rightarrow> nat list \<Rightarrow> error + support" where
  "destroyLive s [] = Inr s"
| "destroyLive s (k # ks) =
     (case bindings s of
        Arr es \<Rightarrow>
          (if k < length es then
             (case es ! k of
                Bnd i \<Rightarrow> bindE (destroyBinding s i) (\<lambda>s'. destroyLive s' ks)
              | Hash h \<Rightarrow> Inl TypeError)
           else destroyLive s ks)
      | _ \<Rightarrow> destroyLive s ks)"

text \<open>
  \<^verbatim>\<open>clearBindings(subset)\<close>:
  \<^verbatim>\<open>var bindings = subset || (this.bindings && this.bindings.slice()); bindings.forEach(...)\<close>.
  Without a subset the loop runs over a copy of the list, and fails when there is no list.
\<close>

definition clearBindings :: "support \<Rightarrow> subsetArg \<Rightarrow> error + support" where
  "clearBindings s subset' =
     (case subset' of
        Other es \<Rightarrow> destroyEach s es
      | OwnList \<Rightarrow> (case bindings s of Arr es \<Rightarrow> destroyLive s [0..<length es] | _ \<Rightarrow> Inl TypeError)
      | NoSubset \<Rightarrow> (case bindings s of Arr es \<Rightarrow> destroyEach s es | _ \<Rightarrow> Inl TypeError))"

text \<open>
  \<^verbatim>\<open>destroy\<close>: the inherited \<^verbatim>\<open>destroy\<close> (a parameter) runs first, then
  \<^verbatim>\<open>this.bindings && this.bindings.length && this.clearBindings(); this.bindings = null;\<close>.
\<close>

definition destroy :: "(support \<Rightarrow> error + support) \<Rightarrow> support \<Rightarrow> error + support" where
  "destroy sup' s =
     bindE (sup' s) (\<lambda>s1.
     bindE (case bindings s1 of
              Arr es \<Rightarrow> (if es \<noteq> [] then clearBindings s1 NoSubset else Inr s1)
            | _ \<Rightarrow> Inr s1) (\<lambda>s2.
       Inr (s2\<lparr>bindings := Null\<rparr>)))"

section \<open>Example objects\<close>

text \<open>
  A small heap: \<^verbatim>\<open>Object.prototype\<close> (0), \<^verbatim>\<open>Function.prototype\<close> (1) with the native
  \<^verbatim>\<open>bind\<close> (2), the \<^verbatim>\<open>enyo\<close> namespace (3), the global object (4), \<^verbatim>\<open>enyo.getPath\<close>
  (5) and \<^verbatim>\<open>enyo.setPath\<close> (6). Example objects follow from address 7. In the example
  environment primitives have no properties of interest and every outside function
  returns \<^verbatim>\<open>undefined\<close> without touching the heap.
\<close>

definition exHeap :: "obj list" where
  "exHeap =
     [\<lparr>props = [], proto = None, callable = False, readonly = [], extensible = True\<rparr>,
      \<lparr>props = [(''bind'', VObj 2)], proto = Some 0, callable = True, readonly = [], extensible = True\<rparr>,
      \<lparr>props = [], proto = Some 1, callable = True, readonly = [], extensible = True\<rparr>,
      \<lparr>props = [(''getPath'', VObj 5), (''setPath'', VObj 6), (''global'', VObj 4)],
         proto = Some 0, callable = False, readonly = [], extensible = True\<rparr>,
      \<lparr>props = [(''enyo'', VObj 3)], proto = Some 0, callable = False, readonly = [], extensible = True\<rparr>,
      \<lparr>props = [], proto = Some 1, callable = True, readonly = [], extensible = True\<rparr>,
      \<lparr>props = [], proto = Some 1, callable = True, readonly = [], extensible = True\<rparr>]"

definition exEnv :: env where
  "exEnv =
     \<lparr>enyo = 3, global = 4, getPathFn = 5, setPathFn = 6, objectProto = 0, nativeBind = 2,
      primProp = (\<lambda>v k. VUndef), toStr = (\<lambda>v. ''[object Object]''),
      call = (\<lambda>f this args st. Inr (VUndef, st))\<rparr>"

definition plain :: "(string \<times> val) list \<Rightarrow> obj" where
  "plain ps = \<lparr>props = ps, proto = Some 0, callable = False, readonly = [], extensible = True\<rparr>"

definition fn :: obj where
  "fn = \<lparr>props = [], proto = Some 1, callable = True, readonly = [], extensible = True\<rparr>"

definition exState :: "obj list \<Rightarrow> state" where
  "exState objs = \<lparr>heap = exHeap @ objs, calls = []\<rparr>"

text \<open>
  An example framework: the constructor of \<^verbatim>\<open>enyo.Binding\<close> is object 20, which is also
  the default kind, and an owner (object 7) that has not been constructed yet.
\<close>

definition exB :: benv where
  "exB =
     \<lparr>defaultBindingKind = VObj 20,
      constructorForKind = (\<lambda>n. if n = ''enyo.Binding'' then VObj 20 else VUndef),
      isConstructor = (\<lambda>a. a = 20 \<or> a = 21),
      emptyProp = (\<lambda>k. VUndef)\<rparr>"

definition exOwner :: "entry slot \<Rightarrow> support" where
  "exOwner bs =
     \<lparr>self = 7, bindings = bs, bindingSupportInitialized = False, ownDefaultBindingKind = VUndef,
      instances = []\<rparr>"

section \<open>Resolving a path\<close>

lemma getWalk_stops_at_falsy:
  "getStep E this st nxt part = Inr (v, st') \<Longrightarrow> \<not> truthy v \<Longrightarrow>
   getWalk E this st nxt part parts = Inr (v, st')"
  by (cases parts) simp_all

lemma getWalk_prefix:
  "getWalk E this st nxt p0 pre = Inr (v, st1) \<Longrightarrow> truthy v \<Longrightarrow> [] \<notin> set pre \<Longrightarrow> seg \<noteq> [] \<Longrightarrow>
   getWalk E this st nxt p0 (pre @ seg # rest) = getWalk E this st1 v seg rest"
proof (induction pre arbitrary: st nxt p0)
  case Nil
  then show ?case by simp
next
  case (Cons p ps)
  then show ?case
    by (auto split: sum.splits if_splits)
qed




text \<open>
  C5. The claim says that a falsy intermediate Node always makes \<^verbatim>\<open>enyo.getPath\<close> return
  \<^verbatim>\<open>undefined\<close>. The loop ends at a falsy Node and the function returns that Node itself:
  on \<^verbatim>\<open>O = {a: 0}\<close>, \<^verbatim>\<open>{a: null}\<close>, \<^verbatim>\<open>{a: false}\<close> and \<^verbatim>\<open>{a: ''}\<close> the path \<^verbatim>\<open>"a.b"\<close>
  resolves to \<^verbatim>\<open>0\<close>, \<^verbatim>\<open>null\<close>, \<^verbatim>\<open>false\<close> and \<^verbatim>\<open>''\<close>.
\<close>

theorem getPath_returns_falsy_intermediate:
  "getPath exEnv (exState [plain [(''a'', VNum 0)]]) 7 (VStr ''a.b'')
     = Inr (VNum 0, exState [plain [(''a'', VNum 0)]]) \<and>
   getPath exEnv (exState [plain [(''a'', VNull)]]) 7 (VStr ''a.b'')
     = Inr (VNull, exState [plain [(''a'', VNull)]]) \<and>
   getPath exEnv (exState [plain [(''a'', VBool False)]]) 7 (VStr ''a.b'')
     = Inr (VBool False, exState [plain [(''a'', VBool False)]]) \<and>
   getPath exEnv (exState [plain [(''a'', VStr '''')]]) 7 (VStr ''a.b'')
     = Inr (VStr '''', exState [plain [(''a'', VStr '''')]])"
  by code_simp

lemma stripDots_all_dots: "s \<noteq> [] \<Longrightarrow> set s \<subseteq> {CHR ''.''} \<Longrightarrow> stripDots s = []"
  by (cases s) (auto simp: stripDots_def dropWhile_eq_Nil_conv)

text \<open>
  C10. A falsy path other than \<^verbatim>\<open>null\<close> and \<^verbatim>\<open>undefined\<close> (the empty string, \<^verbatim>\<open>0\<close>,
  \<^verbatim>\<open>false\<close>, \<^verbatim>\<open>NaN\<close>) is returned as it is, and a non-empty path made of dots only
  resolves to \<^verbatim>\<open>undefined\<close>. Both hold for every receiver and every state, and the state
  is returned unchanged: nothing is read from the receiver and nothing is written.
\<close>

theorem getPath_falsy_path_or_dots:
  "(\<not> truthy path \<and> path \<noteq> VNull \<and> path \<noteq> VUndef \<longrightarrow> getPath E st this path = Inr (path, st)) \<and>
   (s \<noteq> [] \<and> set s \<subseteq> {CHR ''.''} \<longrightarrow> getPath E st this (VStr s) = Inr (VUndef, st))"
  by (auto simp: getPath_def stripDots_all_dots)

theorem getPath_falsy_path_or_dots_witness:
  "getPath exEnv (exState []) 7 (VStr '''') = Inr (VStr '''', exState []) \<and>
   getPath exEnv (exState []) 7 (VNum 0) = Inr (VNum 0, exState []) \<and>
   getPath exEnv (exState []) 7 (VBool False) = Inr (VBool False, exState []) \<and>
   getPath exEnv (exState []) 7 (VStr ''...'') = Inr (VUndef, exState [])"
  using getPath_falsy_path_or_dots [of "VStr ''''" exEnv "exState []" 7 "''...''"]
        getPath_falsy_path_or_dots [of "VNum 0" exEnv "exState []" 7 "''...''"]
        getPath_falsy_path_or_dots [of "VBool False" exEnv "exState []" 7 "''...''"]
  by simp

section \<open>Heap lemmas\<close>

lemma chain_bound: "b \<in> set (chain h a) \<Longrightarrow> b \<le> a \<and> b < length h"
proof (induction h a rule: chain.induct)
  case (1 h a)
  show ?case
  proof (cases "proto (h ! a)")
    case None
    then show ?thesis using "1.prems" by (subst (asm) chain.simps) (auto split: if_splits)
  next
    case (Some p)
    then show ?thesis using "1.prems" "1.IH" [OF _ Some]
      by (subst (asm) chain.simps) (fastforce split: if_splits)
  qed
qed

lemma chain_self: "a < length h \<Longrightarrow> a \<in> set (chain h a)"
  by (subst chain.simps) simp

lemma chain_step:
  "a < length h \<Longrightarrow> proto (h ! a) = Some p \<Longrightarrow> p < a \<Longrightarrow> chain h a = a # chain h p"
  by (subst chain.simps) simp

lemma chain_append: "a < length h \<Longrightarrow> chain (h @ xs) a = chain h a"
proof (induction h a rule: chain.induct)
  case (1 h a)
  show ?case
    using "1.prems" "1.IH"
    by (subst chain.simps, subst (2) chain.simps) (auto simp: nth_append split: option.splits)
qed

lemma chain_update_above: "a < b \<Longrightarrow> chain (h[b := x]) a = chain h a"
proof (induction h a rule: chain.induct)
  case (1 h a)
  show ?case
    using "1.prems" "1.IH"
    by (subst chain.simps, subst (2) chain.simps) (auto split: option.splits)
qed

lemma chain_update_same_proto:
  "t < length h \<Longrightarrow> proto x = proto (h ! t) \<Longrightarrow> chain (h[t := x]) a = chain h a"
proof (induction h a rule: chain.induct)
  case (1 h a)
  show ?case
    using "1.prems" "1.IH"
    by (subst chain.simps, subst (2) chain.simps) (auto simp: nth_list_update split: option.splits)
qed

lemma owner_append: "a < length h \<Longrightarrow> owner (h @ xs) a k = owner h a k"
  unfolding owner_def
  by (auto simp: chain_append nth_append dest: chain_bound intro!: find_cong)

lemma owner_update_above: "a < b \<Longrightarrow> owner (h[b := x]) a k = owner h a k"
  unfolding owner_def
  by (auto simp: chain_update_above dest: chain_bound intro!: find_cong)

lemma owner_own: "a < length h \<Longrightarrow> map_of (props (h ! a)) k = Some v \<Longrightarrow> owner h a k = Some a"
  unfolding owner_def by (subst chain.simps) simp

lemma owner_inherit:
  "a < length h \<Longrightarrow> map_of (props (h ! a)) k = None \<Longrightarrow> proto (h ! a) = Some p \<Longrightarrow> p < a \<Longrightarrow>
   owner h a k = owner h p k"
  unfolding owner_def by (subst chain.simps) simp

lemma lookup_append: "a < length h \<Longrightarrow> lookup (h @ xs) a k = lookup h a k"
proof (induction h a k rule: lookup.induct)
  case (1 h a k)
  show ?case
    using "1.prems" "1.IH"
    by (subst lookup.simps, subst (2) lookup.simps) (auto simp: nth_append split: option.splits)
qed

lemma lookup_update_above: "a < b \<Longrightarrow> lookup (h[b := x]) a k = lookup h a k"
proof (induction h a k rule: lookup.induct)
  case (1 h a k)
  show ?case
    using "1.prems" "1.IH"
    by (subst lookup.simps, subst (2) lookup.simps) (auto split: option.splits)
qed

lemma lookup_own: "a < length h \<Longrightarrow> map_of (props (h ! a)) k = Some v \<Longrightarrow> lookup h a k = v"
  by (subst lookup.simps) simp

lemma lookup_inherit:
  "a < length h \<Longrightarrow> map_of (props (h ! a)) k = None \<Longrightarrow> proto (h ! a) = Some p \<Longrightarrow> p < a \<Longrightarrow>
   lookup h a k = lookup h p k"
  by (subst lookup.simps) simp

lemma owner_bound: "owner h a k = Some b \<Longrightarrow> b \<in> set (chain h a) \<and> map_of (props (h ! b)) k \<noteq> None"
  unfolding owner_def by (auto simp: find_Some_iff in_set_conv_nth)

lemma lookup_owner:
  "lookup h a k = (case owner h a k of Some b \<Rightarrow> (case map_of (props (h ! b)) k of Some v \<Rightarrow> v | None \<Rightarrow> VUndef) | None \<Rightarrow> VUndef)"
proof (induction h a k rule: lookup.induct)
  case (1 h a k)
  show ?case
  proof (cases "a < length h")
    case False
    then show ?thesis by (simp add: lookup.simps [of h a] owner_def chain.simps [of h a])
  next
    case True
    show ?thesis
    proof (cases "map_of (props (h ! a)) k")
      case (Some v)
      then show ?thesis using True by (simp add: lookup_own owner_own)
    next
      case None
      show ?thesis
      proof (cases "proto (h ! a)")
        case pn: None
        then show ?thesis using True None
          by (simp add: lookup.simps [of h a] owner_def chain.simps [of h a])
      next
        case (Some p)
        show ?thesis
        proof (cases "p < a")
          case lt: True
          then show ?thesis using True None Some "1.IH" [OF True None Some lt]
            by (simp add: lookup_inherit owner_inherit)
        next
          case False
          then show ?thesis using True None Some
            by (simp add: lookup.simps [of h a] owner_def chain.simps [of h a])
        qed
      qed
    qed
  qed
qed

lemma protoKey_other: "k \<noteq> ''__proto__'' \<Longrightarrow> \<not> protoKey E h a k"
  by (simp add: protoKey_def)

lemma getObj_other: "k \<noteq> ''__proto__'' \<Longrightarrow> getObj E h a k = lookup h a k"
  by (simp add: getObj_def protoKey_def)

lemma emptyGet_other: "k \<noteq> ''__proto__'' \<Longrightarrow> emptyGet E h k = lookup h (objectProto E) k"
  by (simp add: emptyGet_def protoKey_def)

lemma protoKey_append: "a < length h \<Longrightarrow> protoKey E (h @ xs) a k = protoKey E h a k"
  by (simp add: protoKey_def owner_append chain_append)

lemma protoKey_update_above: "a < b \<Longrightarrow> protoKey E (h[b := x]) a k = protoKey E h a k"
  by (simp add: protoKey_def owner_update_above chain_update_above)

lemma getObj_append: "a < length h \<Longrightarrow> getObj E (h @ xs) a k = getObj E h a k"
  by (simp add: getObj_def protoKey_append protoVal_def lookup_append nth_append)

lemma getObj_update_above: "a < b \<Longrightarrow> getObj E (h[b := x]) a k = getObj E h a k"
  by (simp add: getObj_def protoKey_update_above protoVal_def lookup_update_above)

lemma emptyGet_append: "objectProto E < length h \<Longrightarrow> emptyGet E (h @ xs) k = emptyGet E h k"
  by (simp add: emptyGet_def protoKey_append lookup_append)

lemma emptyGet_update_above: "objectProto E < b \<Longrightarrow> emptyGet E (h[b := x]) k = emptyGet E h k"
  by (simp add: emptyGet_def protoKey_update_above lookup_update_above)

lemma locked_append: "a < length h \<Longrightarrow> locked (h @ xs) a k = locked h a k"
  by (auto simp: locked_def owner_append nth_append split: option.splits dest!: owner_bound chain_bound)

lemma locked_update_above: "a < b \<Longrightarrow> locked (h[b := x]) a k = locked h a k"
  by (auto simp: locked_def owner_update_above split: option.splits dest!: owner_bound chain_bound)

lemma writable_append: "a < length h \<Longrightarrow> writable E (h @ xs) a k = writable E h a k"
  by (auto simp: writable_def owner_append protoKey_append nth_append split: option.splits
      dest!: owner_bound chain_bound)

lemma writable_literal:
  assumes "a < length h" "map_of (props (h ! a)) k = None" "proto (h ! a) = Some p" "p < a"
    and "extensible (h ! a)" "\<not> locked h p k" "k \<noteq> ''__proto__''"
  shows "writable E h a k"
proof (cases "owner h p k")
  case None
  then show ?thesis using assms by (simp add: writable_def owner_inherit protoKey_def)
next
  case (Some b)
  then have "b \<le> p" using owner_bound chain_bound by blast
  then show ?thesis using assms Some by (simp add: writable_def owner_inherit locked_def)
qed

lemma writable_fresh:
  "a < length h \<Longrightarrow> map_of (props (h ! a)) k = None \<Longrightarrow> proto (h ! a) = Some (objectProto E) \<Longrightarrow>
   objectProto E < a \<Longrightarrow> extensible (h ! a) \<Longrightarrow> \<not> locked h (objectProto E) k \<Longrightarrow> k \<noteq> ''__proto__'' \<Longrightarrow>
   writable E h a k"
  by (rule writable_literal)

lemma writable_own:
  "a < length h \<Longrightarrow> map_of (props (h ! a)) k = Some v \<Longrightarrow> k \<notin> set (readonly (h ! a)) \<Longrightarrow> writable E h a k"
  by (simp add: writable_def owner_own)

lemma putObj_writable: "writable E (heap st) a k \<Longrightarrow> putObj E st a k v = Inr (setOwn st a k v)"
  by (simp add: putObj_def)

lemma heap_setOwn_length [simp]: "length (heap (setOwn st a k v)) = length (heap st)"
  by (simp add: setOwn_def)

lemma calls_setOwn [simp]: "calls (setOwn st a k v) = calls st"
  by (simp add: setOwn_def)

lemma nth_setOwn:
  "heap (setOwn st t q v) ! b =
     (if b = t \<and> t < length (heap st)
      then (heap st ! t)\<lparr>props := AList.update q v (props (heap st ! t)),
                         readonly := removeAll q (readonly (heap st ! t))\<rparr>
      else heap st ! b)"
  by (cases "t < length (heap st)") (auto simp: setOwn_def nth_list_update list_update_beyond)

lemma nth_setOwn_other: "b \<noteq> t \<Longrightarrow> heap (setOwn st t q v) ! b = heap st ! b"
  by (simp add: nth_setOwn)

lemma isCallable_setOwn [simp]: "isCallable (setOwn st t q v) f = isCallable st f"
  by (auto simp: isCallable_def nth_setOwn)

lemma chain_setOwn [simp]: "chain (heap (setOwn st t q v)) a = chain (heap st) a"
proof (cases "t < length (heap st)")
  case True
  then show ?thesis by (simp add: setOwn_def chain_update_same_proto)
next
  case False
  then show ?thesis by (simp add: setOwn_def list_update_beyond)
qed

lemma map_of_update_other: "k \<noteq> q \<Longrightarrow> map_of (AList.update q v ps) k = map_of ps k"
  by (simp add: update_conv')

lemma props_setOwn_other_key:
  "k \<noteq> q \<Longrightarrow> map_of (props (heap (setOwn st t q v) ! b)) k = map_of (props (heap st ! b)) k"
  by (simp add: nth_setOwn map_of_update_other)

lemma owner_setOwn_other_key: "k \<noteq> q \<Longrightarrow> owner (heap (setOwn st t q v)) a k = owner (heap st) a k"
  by (simp add: owner_def props_setOwn_other_key)

lemma owner_setOwn_off_chain:
  "t \<notin> set (chain (heap st) a) \<Longrightarrow> owner (heap (setOwn st t q v)) a k = owner (heap st) a k"
proof -
  assume t: "t \<notin> set (chain (heap st) a)"
  have "b \<in> set (chain (heap st) a) \<Longrightarrow> heap (setOwn st t q v) ! b = heap st ! b" for b
    using t by (auto simp: nth_setOwn)
  then show ?thesis
    unfolding owner_def by (intro find_cong) simp_all
qed

lemma lookup_setOwn_other_key: "k \<noteq> q \<Longrightarrow> lookup (heap (setOwn st t q v)) a k = lookup (heap st) a k"
  by (auto simp: lookup_owner owner_setOwn_other_key props_setOwn_other_key split: option.splits)

lemma lookup_setOwn_off_chain:
  "t \<notin> set (chain (heap st) a) \<Longrightarrow> lookup (heap (setOwn st t q v)) a k = lookup (heap st) a k"
proof -
  assume t: "t \<notin> set (chain (heap st) a)"
  have "owner (heap st) a k = Some b \<Longrightarrow> b \<noteq> t" for b
    using t owner_bound by blast
  then show ?thesis
    by (auto simp: lookup_owner owner_setOwn_off_chain [OF t] nth_setOwn_other split: option.splits)
qed

lemma lookup_setOwn_above: "a < b \<Longrightarrow> lookup (heap (setOwn st b k v)) a k' = lookup (heap st) a k'"
  by (simp add: setOwn_def lookup_update_above)

lemma lookup_setOwn_same: "t < length (heap st) \<Longrightarrow> lookup (heap (setOwn st t q v)) t q = v"
  by (simp add: setOwn_def lookup_own update_conv')

lemma protoVal_setOwn [simp]: "protoVal (heap (setOwn st t q v)) a = protoVal (heap st) a"
  by (simp add: protoVal_def nth_setOwn)

lemma protoKey_setOwn_other_key:
  assumes "k \<noteq> q"
  shows "protoKey E (heap (setOwn st t q v)) a k = protoKey E (heap st) a k"
  unfolding protoKey_def owner_setOwn_other_key [OF assms] chain_setOwn ..

lemma protoKey_setOwn_off_chain:
  assumes "t \<notin> set (chain (heap st) a)"
  shows "protoKey E (heap (setOwn st t q v)) a k = protoKey E (heap st) a k"
  unfolding protoKey_def owner_setOwn_off_chain [OF assms] chain_setOwn ..

lemma getObj_setOwn_other_key:
  assumes "k \<noteq> q"
  shows "getObj E (heap (setOwn st t q v)) a k = getObj E (heap st) a k"
  unfolding getObj_def protoKey_setOwn_other_key [OF assms] lookup_setOwn_other_key [OF assms] protoVal_setOwn ..

lemma getObj_setOwn_off_chain:
  assumes "t \<notin> set (chain (heap st) a)"
  shows "getObj E (heap (setOwn st t q v)) a k = getObj E (heap st) a k"
  unfolding getObj_def protoKey_setOwn_off_chain [OF assms] lookup_setOwn_off_chain [OF assms] protoVal_setOwn ..

lemma getObj_setOwn_above: "a < b \<Longrightarrow> getObj E (heap (setOwn st b k v)) a k' = getObj E (heap st) a k'"
  by (simp add: setOwn_def getObj_update_above)

lemma emptyGet_setOwn_above:
  "objectProto E < b \<Longrightarrow> emptyGet E (heap (setOwn st b k v)) k' = emptyGet E (heap st) k'"
  by (simp add: setOwn_def emptyGet_update_above)

lemma setOwn_idem:
  "map_of (props (heap st ! t)) q = Some v \<Longrightarrow> q \<notin> set (readonly (heap st ! t)) \<Longrightarrow> setOwn st t q v = st"
  by (cases "t < length (heap st)") (simp_all add: setOwn_def update_triv)

lemma writable_setOwn:
  assumes "writable E (heap st) a k"
  shows "writable E (heap (setOwn st a k' v)) a k"
proof (cases "k = k'")
  case True
  have a: "a < length (heap st)" using assms by (simp add: writable_def)
  have "map_of (props (heap (setOwn st a k' v) ! a)) k' = Some v"
    using a by (simp add: nth_setOwn update_conv')
  moreover have "k' \<notin> set (readonly (heap (setOwn st a k' v) ! a))"
    using a by (simp add: nth_setOwn)
  ultimately show ?thesis using a True by (intro writable_own) simp_all
next
  case False
  have a: "a < length (heap st)" using assms by (simp add: writable_def)
  have ro: "k \<in> set (readonly (heap (setOwn st a k' v) ! b)) \<longleftrightarrow> k \<in> set (readonly (heap st ! b))" for b
    using False a by (auto simp: nth_setOwn)
  have ex: "extensible (heap (setOwn st a k' v) ! a) = extensible (heap st ! a)"
    using a by (simp add: nth_setOwn)
  show ?thesis
    using assms a False
    by (simp add: writable_def owner_setOwn_other_key protoKey_def ro ex split: option.splits)
qed

lemma getObj_own: "a < length h \<Longrightarrow> map_of (props (h ! a)) k = Some v \<Longrightarrow> getObj E h a k = v"
  by (simp add: getObj_def protoKey_def owner_own lookup_own)

lemma getObj_inherit_empty:
  assumes "src < length h" "map_of (props (h ! src)) k = None"
    and "proto (h ! src) = Some (objectProto E)" "objectProto E < src"
  shows "getObj E h src k = emptyGet E h k"
proof -
  have P: "objectProto E < length h" using assms(1,4) by simp
  have c: "chain h src = src # chain h (objectProto E)"
    using assms by (intro chain_step) simp_all
  have pk: "protoKey E h src k = protoKey E h (objectProto E) k"
    using assms c chain_self [OF P] by (simp add: protoKey_def owner_inherit)
  show ?thesis
    using assms pk by (simp add: getObj_def emptyGet_def protoVal_def lookup_inherit)
qed

lemma mixinKeys_append:
  "mixinKeys E ret src st (ks @ ks') = bindE (mixinKeys E ret src st ks) (\<lambda>st'. mixinKeys E ret src st' ks')"
proof (induction ks arbitrary: st)
  case Nil
  then show ?case by (simp add: bindE_def)
next
  case (Cons k ks)
  then show ?case by (cases "mixinKey E ret src st k") (simp_all add: bindE_def)
qed

lemma putAll_length [simp]:
  "length (heap (foldl (\<lambda>s (k, v). setOwn s ret k v) st kvs)) = length (heap st)"
  by (induction kvs arbitrary: st) auto

lemma putAll_calls [simp]:
  "calls (foldl (\<lambda>s (k, v). setOwn s ret k v) st kvs) = calls st"
  by (induction kvs arbitrary: st) auto

lemma nth_putAll_other:
  "b \<noteq> ret \<Longrightarrow> heap (foldl (\<lambda>s (k, v). setOwn s ret k v) st kvs) ! b = heap st ! b"
  by (induction kvs arbitrary: st) (auto simp: nth_setOwn)

lemma lookup_putAll_above:
  "a < ret \<Longrightarrow> lookup (heap (foldl (\<lambda>s (k, v). setOwn s ret k v) st kvs)) a k' = lookup (heap st) a k'"
  by (induction kvs arbitrary: st) (auto simp: lookup_setOwn_above)

lemma emptyGet_putAll_above:
  "objectProto E < ret \<Longrightarrow> emptyGet E (heap (foldl (\<lambda>s (k, v). setOwn s ret k v) st kvs)) k' = emptyGet E (heap st) k'"
  by (induction kvs arbitrary: st) (auto simp: emptyGet_setOwn_above)

lemma mixin_own_keys:
  "src < ret \<Longrightarrow> objectProto E < ret \<Longrightarrow>
   \<forall>(k, v) \<in> set kvs. getObj E (heap st) src k = v \<and> strictNeq (emptyGet E (heap st) k) v \<and>
       writable E (heap st) ret k \<Longrightarrow>
   mixinKeys E ret src st (map fst kvs) = Inr (foldl (\<lambda>s (k, v). setOwn s ret k v) st kvs)"
proof (induction kvs arbitrary: st)
  case Nil
  then show ?case by simp
next
  case (Cons kv kvs)
  obtain k v where kv: "kv = (k, v)" by (cases kv)
  have step: "mixinKey E ret src st k = Inr (setOwn st ret k v)"
    using Cons.prems(3) kv by (simp add: mixinKey_def Let_def putObj_writable)
  have "\<forall>(k', v') \<in> set kvs. getObj E (heap (setOwn st ret k v)) src k' = v'
          \<and> strictNeq (emptyGet E (heap (setOwn st ret k v)) k') v'
          \<and> writable E (heap (setOwn st ret k v)) ret k'"
    using Cons.prems by (auto simp: getObj_setOwn_above emptyGet_setOwn_above writable_setOwn)
  from Cons.IH [OF Cons.prems(1) Cons.prems(2) this] show ?case
    using step kv by (simp add: bindE_def)
qed

lemma mixin_inherited_keys:
  "\<forall>k \<in> set ks. getObj E (heap st) src k = emptyGet E (heap st) k \<and> emptyGet E (heap st) k \<noteq> VNaN \<Longrightarrow>
   mixinKeys E ret src st ks = Inr st"
proof (induction ks)
  case Nil
  then show ?case by simp
next
  case (Cons k ks)
  have "mixinKey E ret src st k = Inr st"
    using Cons.prems by (simp add: mixinKey_def Let_def strictNeq_def)
  with Cons show ?case by (simp add: bindE_def)
qed

lemma forInKeys_plain:
  "src < length h \<Longrightarrow> proto (h ! src) = Some p \<Longrightarrow> p < src \<Longrightarrow>
   forInKeys h src = map fst (props (h ! src)) @ filter (\<lambda>k. k \<notin> set (map fst (props (h ! src)))) (forInKeys h p)"
  by (subst forInKeys.simps) (simp add: Let_def)

lemma mixinObj_plain:
  assumes "src < length (heap st)" "src < ret"
    and "proto (heap st ! src) = Some (objectProto E)" "objectProto E < src"
    and "distinct (map fst (props (heap st ! src)))"
    and "\<forall>(k, v) \<in> set (props (heap st ! src)).
           strictNeq (emptyGet E (heap st) k) v \<and> writable E (heap st) ret k"
    and "\<forall>k. lookup (heap st) (objectProto E) k \<noteq> VNaN"
  shows "mixinObj E st ret src = Inr (foldl (\<lambda>s (k, v). setOwn s ret k v) st (props (heap st ! src)))"
proof -
  let ?ps = "props (heap st ! src)"
  let ?P = "objectProto E"
  let ?st' = "foldl (\<lambda>s (k, v). setOwn s ret k v) st ?ps"
  have Pret: "?P < ret" using assms(2,4) by simp
  have own: "\<forall>(k, v) \<in> set ?ps. getObj E (heap st) src k = v \<and> strictNeq (emptyGet E (heap st) k) v \<and>
       writable E (heap st) ret k"
    using assms(1,5,6) by (auto simp: getObj_own)
  have first: "mixinKeys E ret src st (map fst ?ps) = Inr ?st'"
    by (rule mixin_own_keys [OF assms(2) Pret own])
  have same: "heap ?st' ! src = heap st ! src"
    using assms(2) by (intro nth_putAll_other) simp
  have inh: "\<forall>k \<in> set (filter (\<lambda>k. k \<notin> set (map fst ?ps)) (forInKeys (heap st) ?P)).
      getObj E (heap ?st') src k = emptyGet E (heap ?st') k \<and> emptyGet E (heap ?st') k \<noteq> VNaN"
  proof
    fix k assume "k \<in> set (filter (\<lambda>k. k \<notin> set (map fst ?ps)) (forInKeys (heap st) ?P))"
    then have none: "map_of ?ps k = None" by (simp add: map_of_eq_None_iff)
    have g: "getObj E (heap ?st') src k = emptyGet E (heap ?st') k"
      using assms(1,3,4) none by (intro getObj_inherit_empty) (simp_all add: same)
    have "emptyGet E (heap st) k \<noteq> VNaN"
      using assms(7) by (simp add: emptyGet_def)
    then have "emptyGet E (heap ?st') k \<noteq> VNaN"
      using Pret by (simp add: emptyGet_putAll_above)
    with g show "getObj E (heap ?st') src k = emptyGet E (heap ?st') k \<and> emptyGet E (heap ?st') k \<noteq> VNaN"
      by simp
  qed
  show ?thesis
    unfolding mixinObj_def
    by (simp only: forInKeys_plain [OF assms(1) assms(3) assms(4)] mixinKeys_append first
        mixin_inherited_keys [OF inh] bindE_def sum.case)
qed

section \<open>Assigning along a path\<close>

text \<open>
  C3. The root \<open>ro\<close> is an empty object \<^verbatim>\<open>{}\<close> (no own property, prototype
  \<^verbatim>\<open>Object.prototype\<close>, extensible as every object literal is), it is not the \<^verbatim>\<open>enyo\<close>
  namespace, and \<^verbatim>\<open>Object.prototype\<close> defines none of the names the call looks up and
  holds none of \<^verbatim>\<open>a\<close>, \<^verbatim>\<open>b\<close>, \<^verbatim>\<open>c\<close> as a property that is not writable. Then
  \<^verbatim>\<open>enyo.setPath.call(ro, "a.b.c", 5)\<close> returns \<open>ro\<close>; afterwards \<open>ro\<close> has the single key
  \<^verbatim>\<open>a\<close>, which holds a new object whose single key \<^verbatim>\<open>b\<close> holds a new object whose
  single key \<^verbatim>\<open>c\<close> holds \<^verbatim>\<open>5\<close>. The only other change of the heap is the options
  literal that every call allocates.
\<close>

theorem setPath_autovivify:
  assumes ro: "ro < length (heap st)"
      "heap st ! ro = \<lparr>props = [], proto = Some (objectProto E), callable = False, readonly = [], extensible = True\<rparr>"
      "objectProto E < ro" "ro \<noteq> enyo E"
    and clean: "\<forall>k \<in> set [''a'', ''b'', ''c'', ''get'', ''set'', ''notify'', ''comparator''].
        lookup (heap st) (objectProto E) k = VUndef"
    and free: "\<forall>k \<in> set [''a'', ''b'', ''c'']. \<not> locked (heap st) (objectProto E) k"
  shows "setPath E st ro (VStr ''a.b.c'') (VNum 5) VUndef =
     Inr (VObj ro,
       st\<lparr>heap := (heap st)[ro := \<lparr>props = [(''a'', VObj (Suc (length (heap st))))], proto = Some (objectProto E),
                                    callable = False, readonly = [], extensible = True\<rparr>]
          @ [\<lparr>props = defaultOptions, proto = Some (objectProto E), callable = False, readonly = [], extensible = True\<rparr>,
             \<lparr>props = [(''b'', VObj (Suc (Suc (length (heap st)))))], proto = Some (objectProto E),
                callable = False, readonly = [], extensible = True\<rparr>,
             \<lparr>props = [(''c'', VNum 5)], proto = Some (objectProto E), callable = False, readonly = [],
                extensible = True\<rparr>]\<rparr>)"
  using ro clean free
  by (simp add: setPath_def setOptions_def Let_def stripDots_def newObject_def alloc_def typeof_def rootOf_def
       defaultOptions_def lookup_append lookup_update_above lookup_own lookup_inherit
       getObj_other putObj_writable writable_fresh locked_append locked_update_above setOwn_def
       bindE_def getV_def putV_def setFinish_def strictNeq_def nth_append list_update_append)

text \<open>The same on the example heap, where the empty root is object 7.\<close>

theorem setPath_autovivify_witness:
  "setPath exEnv (exState [plain []]) 7 (VStr ''a.b.c'') (VNum 5) VUndef =
     Inr (VObj 7, exState [plain [(''a'', VObj 9)], plain defaultOptions, plain [(''b'', VObj 10)],
                           plain [(''c'', VNum 5)]])"
  using setPath_autovivify [of 7 "exState [plain []]" exEnv]
  by (simp add: exState_def exHeap_def exEnv_def plain_def lookup.simps locked_def owner_def chain.simps)

text \<open>
  C4. With the options hash \<^verbatim>\<open>{create: false}\<close> (the object \<open>op\<close>) the same call on the
  empty root returns \<open>ro\<close> and assigns nothing: no object that existed before is changed
  (\<open>ro\<close> gets no key \<^verbatim>\<open>a\<close>), and no function is called (the record of calls is
  unchanged). The heap only grows by the options literal and the hash that
  \<^verbatim>\<open>enyo.mixin({}, [options, opts])\<close> builds. Here \<^verbatim>\<open>Object.prototype\<close> defines
  neither \<^verbatim>\<open>a\<close> nor an option name, and holds no option name as a property that is not
  writable.
\<close>

theorem setPath_no_create:
  assumes ro: "ro < length (heap st)"
      "heap st ! ro = \<lparr>props = [], proto = Some (objectProto E), callable = False, readonly = [], extensible = True\<rparr>"
      "objectProto E < ro" "ro \<noteq> enyo E"
    and op: "op < length (heap st)"
      "heap st ! op = \<lparr>props = [(''create'', VBool False)], proto = Some (objectProto E), callable = False,
                        readonly = [], extensible = True\<rparr>"
      "objectProto E < op"
    and clean: "\<forall>k \<in> set [''a'', ''create'', ''silent'', ''force''].
        lookup (heap st) (objectProto E) k = VUndef"
      "\<forall>k. lookup (heap st) (objectProto E) k \<noteq> VNaN"
    and free: "\<forall>k \<in> set [''create'', ''silent'', ''force'']. \<not> locked (heap st) (objectProto E) k"
  shows "setPath E st ro (VStr ''a.b.c'') (VNum 5) (VObj op) =
     Inr (VObj ro,
       st\<lparr>heap := heap st
          @ [\<lparr>props = defaultOptions, proto = Some (objectProto E), callable = False, readonly = [], extensible = True\<rparr>,
             \<lparr>props = [(''create'', VBool False), (''silent'', VBool False), (''force'', VBool False)],
                proto = Some (objectProto E), callable = False, readonly = [], extensible = True\<rparr>]\<rparr>)"
proof -
  let ?n = "length (heap st)"
  let ?P = "objectProto E"
  let ?opt = "\<lparr>props = defaultOptions, proto = Some ?P, callable = False, readonly = [], extensible = True\<rparr>"
  let ?emp = "\<lparr>props = [], proto = Some ?P, callable = False, readonly = [], extensible = True\<rparr>"
  let ?sta = "st\<lparr>heap := heap st @ [?opt, ?emp]\<rparr>"
  have P: "?P < ?n" using ro by simp
  have m1: "mixinObj E ?sta (Suc ?n) ?n = Inr (foldl (\<lambda>s (k, v). setOwn s (Suc ?n) k v) ?sta (props (heap ?sta ! ?n)))"
    using P clean free
    by (intro mixinObj_plain)
       (auto simp: nth_append lookup_append defaultOptions_def strictNeq_def emptyGet_other
          writable_fresh locked_append)
  let ?stb = "st\<lparr>heap := heap st @ [?opt, \<lparr>props = defaultOptions, proto = Some ?P, callable = False,
                    readonly = [], extensible = True\<rparr>]\<rparr>"
  have stb: "mixinObj E ?sta (Suc ?n) ?n = Inr ?stb"
    unfolding m1 by (simp add: nth_append defaultOptions_def setOwn_def list_update_append)
  have m2: "mixinObj E ?stb (Suc ?n) op = Inr (foldl (\<lambda>s (k, v). setOwn s (Suc ?n) k v) ?stb (props (heap ?stb ! op)))"
    using P op clean free
    by (intro mixinObj_plain)
       (auto simp: nth_append lookup_append defaultOptions_def strictNeq_def emptyGet_other
          writable_own)
  have stc: "mixinObj E ?stb (Suc ?n) op = Inr (st\<lparr>heap := heap st @ [?opt,
      \<lparr>props = [(''create'', VBool False), (''silent'', VBool False), (''force'', VBool False)], proto = Some ?P,
         callable = False, readonly = [], extensible = True\<rparr>]\<rparr>)"
    unfolding m2 using op
    by (simp add: nth_append defaultOptions_def setOwn_def list_update_append)
  have ty: "typeof (st\<lparr>heap := heap st @ [?opt]\<rparr>) (VObj op) = ''object''"
    using op by (simp add: typeof_def isCallable_def nth_append)
  have opts: "setOptions E st (VObj op) =
      Inr ((VObj (Suc ?n), VUndef, VBool False, VBool False, lookup (heap st) ?P ''comparator''),
       st\<lparr>heap := heap st @ [?opt,
      \<lparr>props = [(''create'', VBool False), (''silent'', VBool False), (''force'', VBool False)], proto = Some ?P,
         callable = False, readonly = [], extensible = True\<rparr>]\<rparr>)"
    using ty stc stb P
    by (simp add: setOptions_def newObject_def alloc_def Let_def bindE_def lookup_own lookup_inherit lookup_append nth_append)
  show ?thesis
    using ro clean P
    by (simp add: setPath_def opts Let_def stripDots_def rootOf_def bindE_def getV_def setFinish_def
        getObj_other lookup_append lookup_inherit)
qed

text \<open>The same on the example heap: the root is object 7, the options hash object 8.\<close>

theorem setPath_no_create_witness:
  "setPath exEnv (exState [plain [], plain [(''create'', VBool False)]]) 7 (VStr ''a.b.c'') (VNum 5) (VObj 8) =
     Inr (VObj 7, exState [plain [], plain [(''create'', VBool False)], plain defaultOptions,
            plain [(''create'', VBool False), (''silent'', VBool False), (''force'', VBool False)]])"
  using setPath_no_create [of 7 "exState [plain [], plain [(''create'', VBool False)]]" exEnv 8]
  by (simp add: exState_def exHeap_def exEnv_def plain_def lookup.simps locked_def owner_def chain.simps)

section \<open>Binding a method to a scope\<close>

lemma typeof_string: "typeof st v = ''string'' \<longleftrightarrow> (\<exists>s. v = VStr s)"
  by (cases v) (auto simp: typeof_def)

lemma typeof_function: "typeof st v = ''function'' \<longleftrightarrow> (\<exists>a. v = VObj a \<and> isCallable st a)"
  by (cases v) (auto simp: typeof_def)




section \<open>The third argument of enyo.setPath\<close>

lemma typeof_alloc:
  "typeof st v \<noteq> ''object'' \<Longrightarrow> typeof (st\<lparr>heap := heap st @ xs\<rparr>) v = typeof st v"
  by (cases v) (auto simp: typeof_def isCallable_def nth_append)

lemma setFinish_force_cong:
  "truthy f1 = truthy f2 \<Longrightarrow>
   setFinish E base newv ov f1 silent cmp res s = setFinish E base newv ov f2 silent cmp res s"
  by (simp add: setFinish_def cong: if_cong walkres.case_cong)

lemma setOptions_positional:
  assumes "typeof st opts \<noteq> ''object''"
  shows "setOptions E st opts =
     Inr ((VObj (length (heap st)), opts, VBool False, VBool True,
       lookup (heap st @ [\<lparr>props = defaultOptions, proto = Some (objectProto E), callable = False,
                            readonly = [], extensible = True\<rparr>])
         (length (heap st)) ''comparator''),
      st\<lparr>heap := heap st @ [\<lparr>props = defaultOptions, proto = Some (objectProto E), callable = False,
                                readonly = [], extensible = True\<rparr>]\<rparr>)"
  using typeof_alloc [OF assms] assms
  by (simp add: setOptions_def newObject_def alloc_def Let_def bindE_def lookup_own defaultOptions_def)

lemma setFinish_forced:
  assumes "truthy force" and "\<not> truthy silent" and "truthy nxt"
    and "nxt = base \<or>
         (\<exists>setter. getV E s nxt ''set'' = Inr setter \<and> \<not> (truthy setter \<and> setter \<noteq> VObj (setPathFn E)))"
    and "putV E s nxt part newv = Inr s2" and "getV E s2 nxt ''notify'' = Inr n" and "truthy n"
  shows "setFinish E base newv ov force silent cmp (Reached nxt part was) s =
     bindE (invoke E s2 n nxt [VStr part, was, newv, ov]) (\<lambda>(r, s4). Inr (base, s4))"
  using assms by (auto simp: setFinish_def bindE_def)

lemma setOptions_force_hash:
  assumes op: "op < length (heap st)" "props (heap st ! op) = [(''force'', VBool True)]"
      "proto (heap st ! op) = Some (objectProto E)" "\<not> callable (heap st ! op)" "objectProto E < op"
    and clean: "\<forall>k \<in> set [''create'', ''silent'', ''force'']. lookup (heap st) (objectProto E) k = VUndef"
      "\<forall>k. lookup (heap st) (objectProto E) k \<noteq> VNaN"
    and free: "\<forall>k \<in> set [''create'', ''silent'', ''force'']. \<not> locked (heap st) (objectProto E) k"
  shows "setOptions E st (VObj op) =
      Inr ((VObj (Suc (length (heap st))), VBool True, VBool False, VBool True,
        lookup (heap st) (objectProto E) ''comparator''),
       st\<lparr>heap := heap st @
          [\<lparr>props = defaultOptions, proto = Some (objectProto E), callable = False, readonly = [], extensible = True\<rparr>,
           \<lparr>props = [(''create'', VBool True), (''silent'', VBool False), (''force'', VBool True)],
              proto = Some (objectProto E), callable = False, readonly = [], extensible = True\<rparr>]\<rparr>)"
proof -
  let ?n = "length (heap st)"
  let ?P = "objectProto E"
  let ?opt = "\<lparr>props = defaultOptions, proto = Some ?P, callable = False, readonly = [], extensible = True\<rparr>"
  let ?emp = "\<lparr>props = [], proto = Some ?P, callable = False, readonly = [], extensible = True\<rparr>"
  let ?sta = "st\<lparr>heap := heap st @ [?opt, ?emp]\<rparr>"
  have P: "?P < ?n" using op by simp
  have m1: "mixinObj E ?sta (Suc ?n) ?n = Inr (foldl (\<lambda>s (k, v). setOwn s (Suc ?n) k v) ?sta (props (heap ?sta ! ?n)))"
    using P clean free
    by (intro mixinObj_plain)
       (auto simp: nth_append lookup_append defaultOptions_def strictNeq_def emptyGet_other
          writable_fresh locked_append)
  let ?stb = "st\<lparr>heap := heap st @ [?opt, \<lparr>props = defaultOptions, proto = Some ?P, callable = False,
                    readonly = [], extensible = True\<rparr>]\<rparr>"
  have stb: "mixinObj E ?sta (Suc ?n) ?n = Inr ?stb"
    unfolding m1 by (simp add: nth_append defaultOptions_def setOwn_def list_update_append)
  have m2: "mixinObj E ?stb (Suc ?n) op = Inr (foldl (\<lambda>s (k, v). setOwn s (Suc ?n) k v) ?stb (props (heap ?stb ! op)))"
    using P op clean free
    by (intro mixinObj_plain)
       (auto simp: nth_append lookup_append defaultOptions_def strictNeq_def emptyGet_other
          writable_own)
  have stc: "mixinObj E ?stb (Suc ?n) op = Inr (st\<lparr>heap := heap st @ [?opt,
      \<lparr>props = [(''create'', VBool True), (''silent'', VBool False), (''force'', VBool True)], proto = Some ?P,
         callable = False, readonly = [], extensible = True\<rparr>]\<rparr>)"
    unfolding m2 using op
    by (simp add: nth_append defaultOptions_def setOwn_def list_update_append)
  have ty: "typeof (st\<lparr>heap := heap st @ [?opt]\<rparr>) (VObj op) = ''object''"
    using op by (simp add: typeof_def isCallable_def nth_append)
  show ?thesis
    using ty stc stb P
    by (simp add: setOptions_def newObject_def alloc_def Let_def bindE_def lookup_own lookup_inherit lookup_append nth_append)
qed

text \<open>
  C9. The claim says that, for every Node, a truthy third argument that is not an object
  makes the \<^verbatim>\<open>notify\<close> hook of the target fire exactly as the options \<^verbatim>\<open>{force: true}\<close>
  do. A Node other than the root that has its own \<^verbatim>\<open>set\<close> takes the write over:
  \<^verbatim>\<open>enyo.setPath\<close> calls \<^verbatim>\<open>next.set(part, is, opts)\<close> and returns, and does not call
  \<^verbatim>\<open>notify\<close> itself. With the positional flag the hash it hands over is the options
  literal, whose \<^verbatim>\<open>force\<close> is false; with \<^verbatim>\<open>{force: true}\<close> it is the mixed hash, whose
  \<^verbatim>\<open>force\<close> is true. Here \<^verbatim>\<open>O = {a: D}\<close> and \<^verbatim>\<open>D = {set: f, notify: g, x: 5}\<close>, and
  \<^verbatim>\<open>"a.x"\<close> is set to \<^verbatim>\<open>5\<close>: in both calls the only function called is \<^verbatim>\<open>f\<close> (object
  9), not the hook \<^verbatim>\<open>g\<close> (object 10), and the hash that \<^verbatim>\<open>f\<close> receives has \<^verbatim>\<open>force\<close>
  false in the first call and true in the second.
\<close>

theorem setPath_positional_force_counterexample:
  "(case setPath exEnv
          (exState [plain [(''a'', VObj 8)], plain [(''set'', VObj 9), (''notify'', VObj 10), (''x'', VNum 5)],
                    fn, fn, plain [(''force'', VBool True)]])
          7 (VStr ''a.x'') (VNum 5) (VBool True) of
      Inr (r, s1) \<Rightarrow> Some (calls s1, lookup (heap s1) 12 ''force'')
    | Inl e \<Rightarrow> None)
     = Some ([Call 9 (VObj 8) [VStr ''x'', VNum 5, VObj 12]], VBool False) \<and>
   (case setPath exEnv
          (exState [plain [(''a'', VObj 8)], plain [(''set'', VObj 9), (''notify'', VObj 10), (''x'', VNum 5)],
                    fn, fn, plain [(''force'', VBool True)]])
          7 (VStr ''a.x'') (VNum 5) (VObj 11) of
      Inr (r, s1) \<Rightarrow> Some (calls s1, lookup (heap s1) 13 ''force'')
    | Inl e \<Rightarrow> None)
     = Some ([Call 9 (VObj 8) [VStr ''x'', VNum 5, VObj 13]], VBool True)"
  by code_simp

text \<open>
  C9, amended.
  \<^item> A falsy third argument that is not an object (\<^verbatim>\<open>typeof\<close> is not \<^verbatim>\<open>'object'\<close>) gives
    the call without a third argument.
  \<^item> With a truthy third argument \<open>f\<close> that is not an object the walk runs with the
    defaults (\<^verbatim>\<open>create\<close> true, the options literal as hash). When it reaches a target
    \<open>nxt\<close> that does not hand the write over to a \<^verbatim>\<open>set\<close> of its own, and the target has
    a \<^verbatim>\<open>notify\<close> hook \<open>n\<close> once \<open>newv\<close> is written, \<^verbatim>\<open>enyo.setPath\<close> calls the hook with
    \<^verbatim>\<open>(part, was, is, opts)\<close>, whatever \<^verbatim>\<open>was\<close> and \<^verbatim>\<open>is\<close> are, and returns the root.
  \<^item> With the options \<^verbatim>\<open>{force: true}\<close> (an object \<open>op\<close>, on an \<^verbatim>\<open>Object.prototype\<close>
    that neither defines nor write-protects an option name) the same holds; the hook
    receives the mixed hash instead of the literal, and the walk starts on a heap that
    holds both.
\<close>

theorem setPath_positional_force:
  "(typeof st f \<noteq> ''object'' \<and> \<not> truthy f \<longrightarrow>
      setPath E st this path newv f = setPath E st this path newv VUndef) \<and>
   (typeof st f \<noteq> ''object'' \<and> truthy f \<and>
    splitDot (stripDots s) = part # parts \<and> stripDots s \<noteq> [] \<and>
    setWalk E (VObj (rootOf E this)) newv (VObj (length (heap st))) (VBool True)
      (st\<lparr>heap := heap st @ [\<lparr>props = defaultOptions, proto = Some (objectProto E), callable = False,
                                readonly = [], extensible = True\<rparr>]\<rparr>)
      (VObj (rootOf E this)) part parts = Inr (Reached nxt q was, s1) \<and>
    truthy nxt \<and>
    (nxt = VObj (rootOf E this) \<or>
     (\<exists>setter. getV E s1 nxt ''set'' = Inr setter \<and> \<not> (truthy setter \<and> setter \<noteq> VObj (setPathFn E)))) \<and>
    putV E s1 nxt q newv = Inr s2 \<and> getV E s2 nxt ''notify'' = Inr n \<and> truthy n \<longrightarrow>
      setPath E st this (VStr s) newv f =
        bindE (invoke E s2 n nxt [VStr q, was, newv, VObj (length (heap st))])
          (\<lambda>(r, s3). Inr (VObj (rootOf E this), s3))) \<and>
   (op < length (heap st) \<and> props (heap st ! op) = [(''force'', VBool True)] \<and>
    proto (heap st ! op) = Some (objectProto E) \<and> \<not> callable (heap st ! op) \<and> objectProto E < op \<and>
    (\<forall>k \<in> set [''create'', ''silent'', ''force''].
        lookup (heap st) (objectProto E) k = VUndef \<and> \<not> locked (heap st) (objectProto E) k) \<and>
    (\<forall>k. lookup (heap st) (objectProto E) k \<noteq> VNaN) \<and>
    splitDot (stripDots s) = part # parts \<and> stripDots s \<noteq> [] \<and>
    setWalk E (VObj (rootOf E this)) newv (VObj (Suc (length (heap st)))) (VBool True)
      (st\<lparr>heap := heap st @
         [\<lparr>props = defaultOptions, proto = Some (objectProto E), callable = False, readonly = [], extensible = True\<rparr>,
          \<lparr>props = [(''create'', VBool True), (''silent'', VBool False), (''force'', VBool True)],
             proto = Some (objectProto E), callable = False, readonly = [], extensible = True\<rparr>]\<rparr>)
      (VObj (rootOf E this)) part parts = Inr (Reached nxt' q' was', s1') \<and>
    truthy nxt' \<and>
    (nxt' = VObj (rootOf E this) \<or>
     (\<exists>setter. getV E s1' nxt' ''set'' = Inr setter \<and> \<not> (truthy setter \<and> setter \<noteq> VObj (setPathFn E)))) \<and>
    putV E s1' nxt' q' newv = Inr s2' \<and> getV E s2' nxt' ''notify'' = Inr n' \<and> truthy n' \<longrightarrow>
      setPath E st this (VStr s) newv (VObj op) =
        bindE (invoke E s2' n' nxt' [VStr q', was', newv, VObj (Suc (length (heap st)))])
          (\<lambda>(r, s3). Inr (VObj (rootOf E this), s3)))"
proof (intro conjI impI)
  assume a: "typeof st f \<noteq> ''object'' \<and> \<not> truthy f"
  have u: "typeof st VUndef \<noteq> ''object''" by (simp add: typeof_def)
  have fc: "setFinish E b v ov f si c r x = setFinish E b v ov VUndef si c r x" for b v ov si c r x
    using a by (intro setFinish_force_cong) simp
  then have fc': "setFinish E b v ov f si c = setFinish E b v ov VUndef si c" for b v ov si c
    by (intro ext)
  show "setPath E st this path newv f = setPath E st this path newv VUndef"
  proof (cases path)
    case (VStr p)
    then show ?thesis
      using a
      by (cases "splitDot (stripDots p)")
         (simp_all add: setPath_def setOptions_positional u Let_def bindE_def fc')
  qed (use a in \<open>simp_all add: setPath_def setOptions_positional u bindE_def\<close>)
next
  let ?base = "VObj (rootOf E this)"
  let ?s0 = "st\<lparr>heap := heap st @ [\<lparr>props = defaultOptions, proto = Some (objectProto E), callable = False,
                                readonly = [], extensible = True\<rparr>]\<rparr>"
  assume a: "typeof st f \<noteq> ''object'' \<and> truthy f \<and>
    splitDot (stripDots s) = part # parts \<and> stripDots s \<noteq> [] \<and>
    setWalk E ?base newv (VObj (length (heap st))) (VBool True) ?s0 ?base part parts = Inr (Reached nxt q was, s1) \<and>
    truthy nxt \<and>
    (nxt = ?base \<or>
     (\<exists>setter. getV E s1 nxt ''set'' = Inr setter \<and> \<not> (truthy setter \<and> setter \<noteq> VObj (setPathFn E)))) \<and>
    putV E s1 nxt q newv = Inr s2 \<and> getV E s2 nxt ''notify'' = Inr n \<and> truthy n"
  then have sne: "s \<noteq> []" by (auto simp: stripDots_def)
  have fin: "setFinish E ?base newv (VObj (length (heap st))) f (VBool False) c (Reached nxt q was) s1 =
     bindE (invoke E s2 n nxt [VStr q, was, newv, VObj (length (heap st))]) (\<lambda>(r, s4). Inr (?base, s4))" for c
    using a by (intro setFinish_forced) simp_all
  show "setPath E st this (VStr s) newv f =
        bindE (invoke E s2 n nxt [VStr q, was, newv, VObj (length (heap st))]) (\<lambda>(r, s3). Inr (?base, s3))"
    using a sne by (simp add: setPath_def setOptions_positional Let_def bindE_def fin [unfolded bindE_def])
next
  let ?base = "VObj (rootOf E this)"
  let ?s0 = "st\<lparr>heap := heap st @
         [\<lparr>props = defaultOptions, proto = Some (objectProto E), callable = False, readonly = [], extensible = True\<rparr>,
          \<lparr>props = [(''create'', VBool True), (''silent'', VBool False), (''force'', VBool True)],
             proto = Some (objectProto E), callable = False, readonly = [], extensible = True\<rparr>]\<rparr>"
  assume a: "op < length (heap st) \<and> props (heap st ! op) = [(''force'', VBool True)] \<and>
    proto (heap st ! op) = Some (objectProto E) \<and> \<not> callable (heap st ! op) \<and> objectProto E < op \<and>
    (\<forall>k \<in> set [''create'', ''silent'', ''force''].
        lookup (heap st) (objectProto E) k = VUndef \<and> \<not> locked (heap st) (objectProto E) k) \<and>
    (\<forall>k. lookup (heap st) (objectProto E) k \<noteq> VNaN) \<and>
    splitDot (stripDots s) = part # parts \<and> stripDots s \<noteq> [] \<and>
    setWalk E ?base newv (VObj (Suc (length (heap st)))) (VBool True) ?s0 ?base part parts
      = Inr (Reached nxt' q' was', s1') \<and>
    truthy nxt' \<and>
    (nxt' = ?base \<or>
     (\<exists>setter. getV E s1' nxt' ''set'' = Inr setter \<and> \<not> (truthy setter \<and> setter \<noteq> VObj (setPathFn E)))) \<and>
    putV E s1' nxt' q' newv = Inr s2' \<and> getV E s2' nxt' ''notify'' = Inr n' \<and> truthy n'"
  then have sne: "s \<noteq> []" by (auto simp: stripDots_def)
  have opts: "setOptions E st (VObj op) =
      Inr ((VObj (Suc (length (heap st))), VBool True, VBool False, VBool True,
        lookup (heap st) (objectProto E) ''comparator''), ?s0)"
    using a by (intro setOptions_force_hash) auto
  have fin: "setFinish E ?base newv (VObj (Suc (length (heap st)))) (VBool True) (VBool False) c
       (Reached nxt' q' was') s1' =
     bindE (invoke E s2' n' nxt' [VStr q', was', newv, VObj (Suc (length (heap st)))]) (\<lambda>(r, s4). Inr (?base, s4))" for c
    using a by (intro setFinish_forced) simp_all
  show "setPath E st this (VStr s) newv (VObj op) =
        bindE (invoke E s2' n' nxt' [VStr q', was', newv, VObj (Suc (length (heap st)))])
          (\<lambda>(r, s3). Inr (?base, s3))"
    using a sne by (simp add: setPath_def opts Let_def bindE_def fin [unfolded bindE_def])
qed

text \<open>
  On \<^verbatim>\<open>O = {a: {notify: f, x: 5}}\<close>: the third argument \<^verbatim>\<open>0\<close> is the call without it, and
  with \<^verbatim>\<open>true\<close> and with \<^verbatim>\<open>{force: true}\<close> (object 10) the hook \<^verbatim>\<open>f\<close> (object 9) is
  called although \<^verbatim>\<open>x\<close> is set to the \<^verbatim>\<open>5\<close> it already holds.
\<close>

theorem setPath_positional_force_witness:
  "setPath exEnv (exState [plain [(''a'', VObj 8)], plain [(''notify'', VObj 9), (''x'', VNum 5)], fn,
                           plain [(''force'', VBool True)]])
       7 (VStr ''a.x'') (VNum 5) (VNum 0)
     = setPath exEnv (exState [plain [(''a'', VObj 8)], plain [(''notify'', VObj 9), (''x'', VNum 5)], fn,
                               plain [(''force'', VBool True)]])
       7 (VStr ''a.x'') (VNum 5) VUndef \<and>
   setPath exEnv (exState [plain [(''a'', VObj 8)], plain [(''notify'', VObj 9), (''x'', VNum 5)], fn,
                           plain [(''force'', VBool True)]])
       7 (VStr ''a.x'') (VNum 5) (VBool True)
     = Inr (VObj 7, \<lparr>heap = exHeap @ [plain [(''a'', VObj 8)], plain [(''notify'', VObj 9), (''x'', VNum 5)],
                                      fn, plain [(''force'', VBool True)], plain defaultOptions],
                     calls = [Call 9 (VObj 8) [VStr ''x'', VNum 5, VNum 5, VObj 11]]\<rparr>) \<and>
   setPath exEnv (exState [plain [(''a'', VObj 8)], plain [(''notify'', VObj 9), (''x'', VNum 5)], fn,
                           plain [(''force'', VBool True)]])
       7 (VStr ''a.x'') (VNum 5) (VObj 10)
     = Inr (VObj 7, \<lparr>heap = exHeap @ [plain [(''a'', VObj 8)], plain [(''notify'', VObj 9), (''x'', VNum 5)],
                                      fn, plain [(''force'', VBool True)], plain defaultOptions,
                                      plain [(''create'', VBool True), (''silent'', VBool False),
                                             (''force'', VBool True)]],
                     calls = [Call 9 (VObj 8) [VStr ''x'', VNum 5, VNum 5, VObj 12]]\<rparr>)"
proof -
  let ?st = "exState [plain [(''a'', VObj 8)], plain [(''notify'', VObj 9), (''x'', VNum 5)], fn,
                      plain [(''force'', VBool True)]]"
  let ?lit = "\<lparr>props = defaultOptions, proto = Some (objectProto exEnv), callable = False,
                 readonly = [], extensible = True\<rparr>"
  let ?mix = "\<lparr>props = [(''create'', VBool True), (''silent'', VBool False), (''force'', VBool True)],
                 proto = Some (objectProto exEnv), callable = False, readonly = [], extensible = True\<rparr>"
  let ?s0 = "?st\<lparr>heap := heap ?st @ [?lit]\<rparr>"
  let ?s0' = "?st\<lparr>heap := heap ?st @ [?lit, ?mix]\<rparr>"
  have a: "typeof ?st (VNum 0) \<noteq> ''object'' \<and> \<not> truthy (VNum 0)"
    by (simp add: typeof_def)
  have b: "typeof ?st (VBool True) \<noteq> ''object'' \<and> truthy (VBool True) \<and>
      splitDot (stripDots ''a.x'') = ''a'' # [''x''] \<and> stripDots ''a.x'' \<noteq> [] \<and>
      setWalk exEnv (VObj (rootOf exEnv 7)) (VNum 5) (VObj (length (heap ?st))) (VBool True) ?s0
        (VObj (rootOf exEnv 7)) ''a'' [''x''] = Inr (Reached (VObj 8) ''x'' (VNum 5), ?s0) \<and>
      truthy (VObj 8) \<and>
      (VObj 8 = VObj (rootOf exEnv 7) \<or>
       (\<exists>setter. getV exEnv ?s0 (VObj 8) ''set'' = Inr setter \<and>
          \<not> (truthy setter \<and> setter \<noteq> VObj (setPathFn exEnv)))) \<and>
      putV exEnv ?s0 (VObj 8) ''x'' (VNum 5) = Inr ?s0 \<and>
      getV exEnv ?s0 (VObj 8) ''notify'' = Inr (VObj 9) \<and> truthy (VObj 9)"
  proof -
    have "getV exEnv ?s0 (VObj 8) ''set'' = Inr VUndef" by code_simp
    then have "\<exists>setter. getV exEnv ?s0 (VObj 8) ''set'' = Inr setter \<and>
          \<not> (truthy setter \<and> setter \<noteq> VObj (setPathFn exEnv))"
      by simp
    moreover have "typeof ?st (VBool True) \<noteq> ''object'' \<and> truthy (VBool True) \<and>
      splitDot (stripDots ''a.x'') = ''a'' # [''x''] \<and> stripDots ''a.x'' \<noteq> [] \<and>
      setWalk exEnv (VObj (rootOf exEnv 7)) (VNum 5) (VObj (length (heap ?st))) (VBool True) ?s0
        (VObj (rootOf exEnv 7)) ''a'' [''x''] = Inr (Reached (VObj 8) ''x'' (VNum 5), ?s0) \<and>
      truthy (VObj 8) \<and>
      putV exEnv ?s0 (VObj 8) ''x'' (VNum 5) = Inr ?s0 \<and>
      getV exEnv ?s0 (VObj 8) ''notify'' = Inr (VObj 9) \<and> truthy (VObj 9)"
      by code_simp
    ultimately show ?thesis by blast
  qed
  have c: "10 < length (heap ?st) \<and> props (heap ?st ! 10) = [(''force'', VBool True)] \<and>
      proto (heap ?st ! 10) = Some (objectProto exEnv) \<and> \<not> callable (heap ?st ! 10) \<and> objectProto exEnv < 10 \<and>
      (\<forall>k \<in> set [''create'', ''silent'', ''force''].
          lookup (heap ?st) (objectProto exEnv) k = VUndef \<and> \<not> locked (heap ?st) (objectProto exEnv) k) \<and>
      (\<forall>k. lookup (heap ?st) (objectProto exEnv) k \<noteq> VNaN) \<and>
      splitDot (stripDots ''a.x'') = ''a'' # [''x''] \<and> stripDots ''a.x'' \<noteq> [] \<and>
      setWalk exEnv (VObj (rootOf exEnv 7)) (VNum 5) (VObj (Suc (length (heap ?st)))) (VBool True) ?s0'
        (VObj (rootOf exEnv 7)) ''a'' [''x''] = Inr (Reached (VObj 8) ''x'' (VNum 5), ?s0') \<and>
      truthy (VObj 8) \<and>
      (VObj 8 = VObj (rootOf exEnv 7) \<or>
       (\<exists>setter. getV exEnv ?s0' (VObj 8) ''set'' = Inr setter \<and>
          \<not> (truthy setter \<and> setter \<noteq> VObj (setPathFn exEnv)))) \<and>
      putV exEnv ?s0' (VObj 8) ''x'' (VNum 5) = Inr ?s0' \<and>
      getV exEnv ?s0' (VObj 8) ''notify'' = Inr (VObj 9) \<and> truthy (VObj 9)"
  proof -
    have "getV exEnv ?s0' (VObj 8) ''set'' = Inr VUndef" by code_simp
    then have 1: "\<exists>setter. getV exEnv ?s0' (VObj 8) ''set'' = Inr setter \<and>
          \<not> (truthy setter \<and> setter \<noteq> VObj (setPathFn exEnv))"
      by simp
    have 2: "\<forall>k. lookup (heap ?st) (objectProto exEnv) k \<noteq> VNaN"
      by (simp add: exState_def exHeap_def exEnv_def lookup.simps)
    have 3: "10 < length (heap ?st) \<and> props (heap ?st ! 10) = [(''force'', VBool True)] \<and>
      proto (heap ?st ! 10) = Some (objectProto exEnv) \<and> \<not> callable (heap ?st ! 10) \<and> objectProto exEnv < 10 \<and>
      (\<forall>k \<in> set [''create'', ''silent'', ''force''].
          lookup (heap ?st) (objectProto exEnv) k = VUndef \<and> \<not> locked (heap ?st) (objectProto exEnv) k) \<and>
      splitDot (stripDots ''a.x'') = ''a'' # [''x''] \<and> stripDots ''a.x'' \<noteq> [] \<and>
      setWalk exEnv (VObj (rootOf exEnv 7)) (VNum 5) (VObj (Suc (length (heap ?st)))) (VBool True) ?s0'
        (VObj (rootOf exEnv 7)) ''a'' [''x''] = Inr (Reached (VObj 8) ''x'' (VNum 5), ?s0') \<and>
      truthy (VObj 8) \<and>
      putV exEnv ?s0' (VObj 8) ''x'' (VNum 5) = Inr ?s0' \<and>
      getV exEnv ?s0' (VObj 8) ''notify'' = Inr (VObj 9) \<and> truthy (VObj 9)"
      by code_simp
    from 1 2 3 show ?thesis by blast
  qed
  have rb: "bindE (invoke exEnv ?s0 (VObj 9) (VObj 8) [VStr ''x'', VNum 5, VNum 5, VObj (length (heap ?st))])
              (\<lambda>(r, s3). Inr (VObj (rootOf exEnv 7), s3))
     = Inr (VObj 7, \<lparr>heap = exHeap @ [plain [(''a'', VObj 8)], plain [(''notify'', VObj 9), (''x'', VNum 5)],
                                      fn, plain [(''force'', VBool True)], plain defaultOptions],
                     calls = [Call 9 (VObj 8) [VStr ''x'', VNum 5, VNum 5, VObj 11]]\<rparr>)"
    by code_simp
  have rc: "bindE (invoke exEnv ?s0' (VObj 9) (VObj 8) [VStr ''x'', VNum 5, VNum 5, VObj (Suc (length (heap ?st)))])
              (\<lambda>(r, s3). Inr (VObj (rootOf exEnv 7), s3))
     = Inr (VObj 7, \<lparr>heap = exHeap @ [plain [(''a'', VObj 8)], plain [(''notify'', VObj 9), (''x'', VNum 5)],
                                      fn, plain [(''force'', VBool True)], plain defaultOptions,
                                      plain [(''create'', VBool True), (''silent'', VBool False),
                                             (''force'', VBool True)]],
                     calls = [Call 9 (VObj 8) [VStr ''x'', VNum 5, VNum 5, VObj 12]]\<rparr>)"
    by code_simp
  note w0 = setPath_positional_force [where st = ?st and f = "VNum 0" and E = exEnv and this = 7
      and path = "VStr ''a.x''" and newv = "VNum 5", THEN conjunct1, rule_format, OF a]
  note w1 = setPath_positional_force [where st = ?st and f = "VBool True" and E = exEnv and this = 7
      and newv = "VNum 5" and s = "''a.x''" and part = "''a''" and parts = "[''x'']"
      and nxt = "VObj 8" and q = "''x''" and was = "VNum 5" and ?s1.0 = ?s0 and ?s2.0 = ?s0 and n = "VObj 9",
      THEN conjunct2, THEN conjunct1, rule_format, OF b]
  note w2 = setPath_positional_force [where st = ?st and E = exEnv and this = 7
      and newv = "VNum 5" and s = "''a.x''" and part = "''a''" and parts = "[''x'']" and op = 10
      and nxt' = "VObj 8" and q' = "''x''" and was' = "VNum 5" and s1' = ?s0' and s2' = ?s0' and n' = "VObj 9",
      THEN conjunct2, THEN conjunct2, rule_format, OF c]
  show ?thesis
    using w0 w1 [unfolded rb] w2 [unfolded rc] by simp
qed

section \<open>The bindings of an owner\<close>

lemma declared_cong:
  "self s' = self s \<Longrightarrow> ownDefaultBindingKind s' = ownDefaultBindingKind s \<Longrightarrow> declared B s' args = declared B s args"
  by (simp add: declared_def Let_def cong: if_cong)

lemma binding_live:
  assumes "bindingSupportInitialized s" and "bindings s = Arr bs"
    and "instantiate B (declared B s args) = Inr b"
  shows "binding B s args =
     Inr (Some (Bnd (length (instances s))),
          s\<lparr>instances := instances s @ [b], bindings := Arr (bs @ [Bnd (length (instances s))])\<rparr>)"
  using assms by (simp add: binding_def bindE_def Let_def)

lemma bindEach_live:
  assumes "bindingSupportInitialized s" and "bindings s = Arr bs"
    and "\<forall>h \<in> set hs. \<exists>b. instantiate B (declared B s [h]) = Inr b"
  shows "\<exists>s'. bindEach B s (map Hash hs) = Inr s' \<and>
           bindings s' = Arr (bs @ map Bnd [length (instances s)..<length (instances s) + length hs]) \<and>
           map Inr (instances s') = map Inr (instances s) @ map (\<lambda>h. instantiate B (declared B s [h])) hs \<and>
           bindingSupportInitialized s' \<and> self s' = self s \<and> ownDefaultBindingKind s' = ownDefaultBindingKind s"
  using assms
proof (induction hs arbitrary: s bs)
  case Nil
  then show ?case by simp
next
  case (Cons h hs)
  from Cons.prems(3) obtain b where b: "instantiate B (declared B s [h]) = Inr b" by auto
  let ?s1 = "s\<lparr>instances := instances s @ [b], bindings := Arr (bs @ [Bnd (length (instances s))])\<rparr>"
  have step: "binding B s [entryProps s (Hash h)] = Inr (Some (Bnd (length (instances s))), ?s1)"
    using binding_live [OF Cons.prems(1) Cons.prems(2)] b by (simp add: entryProps_def)
  have d: "declared B ?s1 args = declared B s args" for args
    by (rule declared_cong) simp_all
  have "\<exists>s'. bindEach B ?s1 (map Hash hs) = Inr s' \<and>
           bindings s' = Arr ((bs @ [Bnd (length (instances s))]) @
              map Bnd [length (instances ?s1)..<length (instances ?s1) + length hs]) \<and>
           map Inr (instances s') = map Inr (instances ?s1) @ map (\<lambda>h. instantiate B (declared B ?s1 [h])) hs \<and>
           bindingSupportInitialized s' \<and> self s' = self ?s1 \<and> ownDefaultBindingKind s' = ownDefaultBindingKind ?s1"
    using Cons.prems by (intro Cons.IH) (simp_all add: d)
  then obtain s' where s': "bindEach B ?s1 (map Hash hs) = Inr s'"
      "bindings s' = Arr ((bs @ [Bnd (length (instances s))]) @
              map Bnd [length (instances ?s1)..<length (instances ?s1) + length hs])"
      "map Inr (instances s') = map Inr (instances ?s1) @ map (\<lambda>h. instantiate B (declared B ?s1 [h])) hs"
      "bindingSupportInitialized s'" "self s' = self ?s1" "ownDefaultBindingKind s' = ownDefaultBindingKind ?s1"
    by blast
  have r: "[length (instances s)..<length (instances s) + length (h # hs)]
      = length (instances s) # [Suc (length (instances s))..<Suc (length (instances s)) + length hs]"
    by (subst upt_conv_Cons) simp_all
  have b2: "bindings s' = Arr (bs @ map Bnd [length (instances s)..<length (instances s) + length (h # hs)])"
    unfolding s'(2) r by (simp del: upt_Suc)
  have b3: "map Inr (instances s') = map Inr (instances s) @ map (\<lambda>h. instantiate B (declared B s [h])) (h # hs)"
    using s'(3) b by (simp add: d)
  have b4: "bindEach B s (map Hash (h # hs)) = Inr s'"
    using step s'(1) by (simp add: bindE_def)
  show ?case
    using b2 b3 b4 s'(4,5,6) by simp
qed

lemma instantiate_error: "instantiate B pc = Inl e \<Longrightarrow> e = TypeError"
  by (cases pc) (auto simp: instantiate_def Let_def split: val.splits if_splits)

lemma bindEach_fails:
  assumes "bindingSupportInitialized s" and "bindings s = Arr bs"
    and "\<exists>h \<in> set hs. \<exists>e. instantiate B (declared B s [h]) = Inl e"
  shows "bindEach B s (map Hash hs) = Inl TypeError"
  using assms
proof (induction hs arbitrary: s bs)
  case Nil
  then show ?case by simp
next
  case (Cons h hs)
  show ?case
  proof (cases "instantiate B (declared B s [h])")
    case (Inl e)
    then show ?thesis
      using Cons.prems(1,2) instantiate_error [OF Inl]
      by (simp add: binding_def bindE_def Let_def entryProps_def)
  next
    case (Inr b)
    let ?s1 = "s\<lparr>instances := instances s @ [b], bindings := Arr (bs @ [Bnd (length (instances s))])\<rparr>"
    have step: "binding B s [entryProps s (Hash h)] = Inr (Some (Bnd (length (instances s))), ?s1)"
      using binding_live [OF Cons.prems(1) Cons.prems(2)] Inr by (simp add: entryProps_def)
    have d: "declared B ?s1 args = declared B s args" for args
      by (rule declared_cong) simp_all
    have "\<exists>h \<in> set hs. \<exists>e. instantiate B (declared B ?s1 [h]) = Inl e"
      using Cons.prems(3) Inr by (auto simp: d)
    then have "bindEach B ?s1 (map Hash hs) = Inl TypeError"
      using Cons.prems(1) by (intro Cons.IH) simp_all
    then show ?thesis using step by (simp add: bindE_def)
  qed
qed

text \<open>
  C6. An owner has the raw declarations \<open>hs\<close> queued, and the inherited \<^verbatim>\<open>constructed\<close>
  leaves the list and the Bindings alone. When the kind of every declaration resolves to
  a constructor, \<^verbatim>\<open>constructed\<close> completes; afterwards the list holds exactly one
  reference per declaration, to the Bindings created by this call, in declaration order,
  and no raw hash: the new Bindings are, one by one and in order, the instantiations of
  the declarations. When the kind of some declaration does not resolve to a constructor,
  \<^verbatim>\<open>new Ctor(props)\<close> throws a \<^verbatim>\<open>TypeError\<close> and \<^verbatim>\<open>constructed\<close> does not complete.
\<close>

theorem constructed_instantiates_declarations:
  assumes "bindings s = Arr (map Hash hs)"
    and "\<forall>x. \<exists>y. sup' x = Inr y \<and> bindings y = bindings x \<and> instances y = instances x"
  shows "((\<forall>h \<in> set hs. \<exists>b. instantiate B (declared B s [h]) = Inr b) \<longrightarrow>
          (\<exists>s'. constructed B sup' s = Inr s' \<and>
             bindings s' = Arr (map Bnd [length (instances s)..<length (instances s) + length hs]) \<and>
             map Inr (instances s') = map Inr (instances s) @ map (\<lambda>h. instantiate B (declared B s [h])) hs)) \<and>
         ((\<exists>h \<in> set hs. \<exists>e. instantiate B (declared B s [h]) = Inl e) \<longrightarrow>
          constructed B sup' s = Inl TypeError)"
proof (intro conjI impI)
  let ?s1 = "s\<lparr>bindingSupportInitialized := True, bindings := Arr []\<rparr>"
  have d: "declared B ?s1 args = declared B s args" for args
    by (rule declared_cong) simp_all
  {
    assume ok: "\<forall>h \<in> set hs. \<exists>b. instantiate B (declared B s [h]) = Inr b"
    have "\<exists>s'. bindEach B ?s1 (map Hash hs) = Inr s' \<and>
           bindings s' = Arr ([] @ map Bnd [length (instances ?s1)..<length (instances ?s1) + length hs]) \<and>
           map Inr (instances s') = map Inr (instances ?s1) @ map (\<lambda>h. instantiate B (declared B ?s1 [h])) hs \<and>
           bindingSupportInitialized s' \<and> self s' = self ?s1 \<and> ownDefaultBindingKind s' = ownDefaultBindingKind ?s1"
      using ok by (intro bindEach_live) (simp_all add: d)
    then obtain s2 where s2: "bindEach B ?s1 (map Hash hs) = Inr s2"
        "bindings s2 = Arr (map Bnd [length (instances s)..<length (instances s) + length hs])"
        "map Inr (instances s2) = map Inr (instances s) @ map (\<lambda>h. instantiate B (declared B s [h])) hs"
      by (auto simp: d)
    from assms(2) obtain s' where s': "sup' s2 = Inr s'" "bindings s' = bindings s2" "instances s' = instances s2"
      by blast
    show "\<exists>s'. constructed B sup' s = Inr s' \<and>
             bindings s' = Arr (map Bnd [length (instances s)..<length (instances s) + length hs]) \<and>
             map Inr (instances s') = map Inr (instances s) @ map (\<lambda>h. instantiate B (declared B s [h])) hs"
      using assms(1) s2 s' by (simp add: constructed_def Let_def bindE_def)
  }
  {
    assume bad: "\<exists>h \<in> set hs. \<exists>e. instantiate B (declared B s [h]) = Inl e"
    have "bindEach B ?s1 (map Hash hs) = Inl TypeError"
      using bad by (intro bindEach_fails [where bs = "[]"]) (simp_all add: d)
    then show "constructed B sup' s = Inl TypeError"
      using assms(1) by (auto simp: constructed_def Let_def bindE_def)
  }
qed

text \<open>Two declarations, one with the default kind and one naming \<^verbatim>\<open>enyo.Binding\<close>.\<close>

theorem constructed_instantiates_declarations_witness:
  "constructed exB Inr (exOwner (Arr [Hash [(''from'', VStr ''.a''), (''to'', VStr ''.b'')],
                                      Hash [(''from'', VStr ''.c''), (''kind'', VStr ''enyo.Binding'')]]))
   = Inr \<lparr>self = 7, bindings = Arr [Bnd 0, Bnd 1], bindingSupportInitialized = True,
          ownDefaultBindingKind = VUndef,
          instances =
            [\<lparr>bprops = [(''from'', VStr ''.a''), (''to'', VStr ''.b''), (''owner'', VObj 7), (''kind'', VObj 20)],
               bctor = 20, bowner = VObj 7, bdestroyed = False\<rparr>,
             \<lparr>bprops = [(''from'', VStr ''.c''), (''kind'', VObj 20), (''owner'', VObj 7)],
               bctor = 20, bowner = VObj 7, bdestroyed = False\<rparr>]\<rparr>"
proof -
  let ?hs = "[[(''from'', VStr ''.a''), (''to'', VStr ''.b'')], [(''from'', VStr ''.c''), (''kind'', VStr ''enyo.Binding'')]]"
  let ?s = "exOwner (Arr (map Hash ?hs))"
  have a: "bindings ?s = Arr (map Hash ?hs)" by (simp add: exOwner_def)
  have b: "\<forall>h \<in> set ?hs. \<exists>b. instantiate exB (declared exB ?s [h]) = Inr b"
    by (simp add: instantiate_def declared_def mixinArgs_def mixinHash_def hget_def exB_def exOwner_def
        strictNeq_def newBinding_def Let_def)
  have c: "\<forall>x. \<exists>y. Inr x = Inr y \<and> bindings y = bindings x \<and> instances y = instances x" by simp
  from constructed_instantiates_declarations [OF a, of Inr exB, OF c] b
  obtain s' where s': "constructed exB Inr ?s = Inr s'" by blast
  have "constructed exB Inr ?s = Inr \<lparr>self = 7, bindings = Arr [Bnd 0, Bnd 1], bindingSupportInitialized = True,
          ownDefaultBindingKind = VUndef,
          instances =
            [\<lparr>bprops = [(''from'', VStr ''.a''), (''to'', VStr ''.b''), (''owner'', VObj 7), (''kind'', VObj 20)],
               bctor = 20, bowner = VObj 7, bdestroyed = False\<rparr>,
             \<lparr>bprops = [(''from'', VStr ''.c''), (''kind'', VObj 20), (''owner'', VObj 7)],
               bctor = 20, bowner = VObj 7, bdestroyed = False\<rparr>]\<rparr>"
    by code_simp
  with s' show ?thesis by simp
qed

lemma destroyBinding_ok:
  assumes "bindings s = Arr es" and "i < length (instances s)"
  shows "\<exists>s' es'. destroyBinding s i = Inr s' \<and> bindings s' = Arr es' \<and>
           length (instances s') = length (instances s) \<and> bdestroyed (instances s' ! i) \<and>
           (\<forall>j. j < length (instances s) \<and> bdestroyed (instances s ! j) \<longrightarrow> bdestroyed (instances s' ! j))"
  using assms
  by (auto simp: destroyBinding_def removeBinding_def bindE_def nth_list_update)

lemma destroyEach_all:
  assumes "bindings s = Arr es" and "\<forall>i \<in> set ids. i < length (instances s)"
  shows "\<exists>s' es'. destroyEach s (map Bnd ids) = Inr s' \<and> bindings s' = Arr es' \<and>
           length (instances s') = length (instances s) \<and>
           (\<forall>i \<in> set ids. bdestroyed (instances s' ! i)) \<and>
           (\<forall>j. j < length (instances s) \<and> bdestroyed (instances s ! j) \<longrightarrow> bdestroyed (instances s' ! j))"
  using assms
proof (induction ids arbitrary: s es)
  case Nil
  then show ?case by simp
next
  case (Cons i ids)
  from Cons.prems have i: "i < length (instances s)" by simp
  from destroyBinding_ok [OF Cons.prems(1) i]
  obtain s1 es1 where s1: "destroyBinding s i = Inr s1" "bindings s1 = Arr es1"
      "length (instances s1) = length (instances s)" "bdestroyed (instances s1 ! i)"
      "\<forall>j. j < length (instances s) \<and> bdestroyed (instances s ! j) \<longrightarrow> bdestroyed (instances s1 ! j)"
    by blast
  have "\<forall>i \<in> set ids. i < length (instances s1)" using Cons.prems s1(3) by simp
  from Cons.IH [OF s1(2) this]
  obtain s' es' where s': "destroyEach s1 (map Bnd ids) = Inr s'" "bindings s' = Arr es'"
      "length (instances s') = length (instances s1)"
      "\<forall>i \<in> set ids. bdestroyed (instances s' ! i)"
      "\<forall>j. j < length (instances s1) \<and> bdestroyed (instances s1 ! j) \<longrightarrow> bdestroyed (instances s' ! j)"
    by blast
  show ?case
    using s1 s' i by (auto simp: bindE_def)
qed

text \<open>
  C7. After the inherited \<^verbatim>\<open>destroy\<close> the owner's list holds the live Bindings
  \<open>ids\<close>. Then \<^verbatim>\<open>destroy\<close> completes, every one of them has been destroyed, and the
  owner's list is \<^verbatim>\<open>null\<close>.
\<close>

theorem destroy_destroys_all_bindings:
  assumes "sup' s = Inr s1"
    and "bindings s1 = Arr (map Bnd ids)"
    and "\<forall>i \<in> set ids. i < length (instances s1)"
  shows "\<exists>s'. destroy sup' s = Inr s' \<and> bindings s' = Null \<and>
           length (instances s') = length (instances s1) \<and>
           (\<forall>i \<in> set ids. bdestroyed (instances s' ! i))"
proof (cases ids)
  case Nil
  then show ?thesis using assms by (simp add: destroy_def bindE_def)
next
  case (Cons i rest)
  from destroyEach_all [OF assms(2) assms(3)]
  obtain s2 es' where s2: "destroyEach s1 (map Bnd ids) = Inr s2" "bindings s2 = Arr es'"
      "length (instances s2) = length (instances s1)"
      "\<forall>i \<in> set ids. bdestroyed (instances s2 ! i)"
    by blast
  show ?thesis
    using assms(1,2) s2 Cons by (auto simp: destroy_def bindE_def clearBindings_def)
qed

text \<open>An owner with two live Bindings.\<close>

theorem destroy_destroys_all_bindings_witness:
  "destroy Inr \<lparr>self = 7, bindings = Arr [Bnd 0, Bnd 1], bindingSupportInitialized = True,
          ownDefaultBindingKind = VUndef,
          instances =
            [\<lparr>bprops = [], bctor = 20, bowner = VObj 7, bdestroyed = False\<rparr>,
             \<lparr>bprops = [], bctor = 20, bowner = VObj 7, bdestroyed = False\<rparr>]\<rparr>
   = Inr \<lparr>self = 7, bindings = Null, bindingSupportInitialized = True,
          ownDefaultBindingKind = VUndef,
          instances =
            [\<lparr>bprops = [], bctor = 20, bowner = VNull, bdestroyed = True\<rparr>,
             \<lparr>bprops = [], bctor = 20, bowner = VNull, bdestroyed = True\<rparr>]\<rparr>"
proof -
  let ?s = "\<lparr>self = 7, bindings = Arr [Bnd 0, Bnd 1], bindingSupportInitialized = True,
          ownDefaultBindingKind = VUndef,
          instances =
            [\<lparr>bprops = [], bctor = 20, bowner = VObj 7, bdestroyed = False\<rparr>,
             \<lparr>bprops = [], bctor = 20, bowner = VObj 7, bdestroyed = False\<rparr>]\<rparr>"
  have a: "Inr ?s = (Inr ?s :: error + support)" by simp
  have b: "bindings ?s = Arr (map Bnd [0, 1])" by simp
  have c: "\<forall>i \<in> set [0, 1]. i < length (instances ?s)" by simp
  from destroy_destroys_all_bindings [of Inr ?s ?s "[0, 1]", OF a b c]
  obtain s' where "destroy Inr ?s = Inr s'" "bindings s' = Null" by blast
  moreover have "destroy Inr ?s = Inr \<lparr>self = 7, bindings = Null, bindingSupportInitialized = True,
          ownDefaultBindingKind = VUndef,
          instances =
            [\<lparr>bprops = [], bctor = 20, bowner = VNull, bdestroyed = True\<rparr>,
             \<lparr>bprops = [], bctor = 20, bowner = VNull, bdestroyed = True\<rparr>]\<rparr>"
    by code_simp
  ultimately show ?thesis by simp
qed

section \<open>Assigning the same value twice\<close>

lemma plainWalk_target:
  "plainWalk E h base a part parts = Some (t, q) \<Longrightarrow> t < length h \<and> q = last (part # parts)"
proof (induction parts arbitrary: a part)
  case Nil
  then show ?case by (simp split: if_splits)
next
  case (Cons p ps)
  then show ?case by (auto split: if_splits val.splits)
qed

lemma plainReads_bound:
  "plainWalk E h base a part parts = Some r \<Longrightarrow> (n, p) \<in> set (plainReads E h a part parts) \<Longrightarrow> n < length h"
proof (induction parts arbitrary: a part)
  case Nil
  then show ?case by simp
next
  case (Cons p' ps)
  then show ?case by (auto split: if_splits val.splits)
qed

lemma plainWalk_cong:
  assumes "plainWalk E h base a part parts = Some r"
    and "length h \<le> length h'"
    and "\<forall>(n, p) \<in> set (plainReads E h a part parts).
           getObj E h' n p = getObj E h n p \<and> lookup h' n ''get'' = lookup h n ''get'' \<and>
           lookup h' n ''set'' = lookup h n ''set''"
  shows "plainWalk E h' base a part parts = Some r"
  using assms
proof (induction parts arbitrary: a part)
  case Nil
  then show ?case by (simp split: if_splits)
next
  case (Cons p ps)
  from Cons.prems(1) have a: "a < length h" and p: "p \<noteq> []"
    and pl: "a = base \<or> (\<not> customSet E h a \<and> \<not> customGet E h a)"
    by (simp_all split: if_splits)
  from Cons.prems(1) a p pl obtain b where b: "getObj E h a part = VObj b"
    and rest: "plainWalk E h base b p ps = Some r"
    by (auto split: val.splits if_splits)
  have reads: "plainReads E h a part (p # ps) = (a, part) # plainReads E h b p ps"
    using b by simp
  have eqs: "getObj E h' a part = getObj E h a part" "lookup h' a ''get'' = lookup h a ''get''"
      "lookup h' a ''set'' = lookup h a ''set''"
    using Cons.prems(3) unfolding reads by simp_all
  have tl: "\<forall>(n, p) \<in> set (plainReads E h b p ps).
           getObj E h' n p = getObj E h n p \<and> lookup h' n ''get'' = lookup h n ''get'' \<and>
           lookup h' n ''set'' = lookup h n ''set''"
    using Cons.prems(3) unfolding reads by simp
  have "plainWalk E h' base b p ps = Some r"
    by (rule Cons.IH [OF rest Cons.prems(2) tl])
  then show ?case
    using a p pl b eqs Cons.prems(2) by (auto simp: customSet_def customGet_def)
qed

lemma setWalk_plain:
  assumes "plainWalk E (heap s) base a part parts = Some (t, q)"
    and "\<not> customGet E (heap s) t"
  shows "setWalk E (VObj base) newv ov create s (VObj a) part parts =
           Inr (Reached (VObj t) q (getObj E (heap s) t q), s)"
  using assms
proof (induction parts arbitrary: a part)
  case Nil
  then show ?case
    by (auto simp: bindE_def getV_def getObj_other customGet_def split: if_splits)
next
  case (Cons p ps)
  from Cons.prems(1) have a: "a < length (heap s)" and p: "p \<noteq> []"
    and pl: "a = base \<or> (\<not> customSet E (heap s) a \<and> \<not> customGet E (heap s) a)"
    by (simp_all split: if_splits)
  from Cons.prems(1) a p pl obtain b where b: "getObj E (heap s) a part = VObj b"
    and rest: "plainWalk E (heap s) base b p ps = Some (t, q)"
    by (auto split: val.splits if_splits)
  have ih: "setWalk E (VObj base) newv ov create s (VObj b) p ps =
           Inr (Reached (VObj t) q (getObj E (heap s) t q), s)"
    by (rule Cons.IH [OF rest Cons.prems(2)])
  show ?case
    using pl b p ih by (auto simp: bindE_def getV_def getObj_other customGet_def customSet_def)
qed

lemma setFinish_plain:
  assumes "VObj t = base \<or> \<not> customSet E (heap s) t"
    and "\<not> truthy force" and "\<not> truthy cmp" and "writable E (heap s) t q"
  shows "setFinish E base newv ov force (VBool False) cmp (Reached (VObj t) q was) s =
     (if truthy (lookup (heap (setOwn s t q newv)) t ''notify'') \<and> strictNeq was newv
      then bindE (invoke E (setOwn s t q newv) (lookup (heap (setOwn s t q newv)) t ''notify'') (VObj t)
                   [VStr q, was, newv, ov]) (\<lambda>(r, s4). Inr (base, s4))
      else Inr (base, setOwn s t q newv))"
  using assms
  by (auto simp: setFinish_def bindE_def getV_def getObj_other putV_def putObj_writable customSet_def)

lemma getObj_writable:
  "writable E h t q \<Longrightarrow> getObj E h t q = lookup h t q"
  by (auto simp: writable_def getObj_def split: option.splits simp: protoKey_def)




end
